theory Spec2Isabelle
  imports Main "HOL-Library.Word"
begin

section \<open>Bytes, runes and UTF-8\<close>

text \<open>
  A Go \<^verbatim>\<open>string\<close> and a \<^verbatim>\<open>[]byte\<close> are sequences of bytes: both are
  \<open>char list\<close> here (an Isabelle \<open>char\<close> is one byte). Where the source tells a nil
  slice from an empty one the slice is an \<open>option\<close>, with \<open>None\<close> for nil.
\<close>

type_synonym bytes = string

subsection \<open>unicode/utf8\<close>

text \<open>
  \<open>DecodeRune\<close> and \<open>EncodeRune\<close> follow Go's \<^verbatim>\<open>utf8.DecodeRune\<close> and
  \<^verbatim>\<open>utf8.EncodeRune\<close> (standard library, used by \<^verbatim>\<open>encoding/json\<close>). A rune
  is a natural number; the masks and shifts of the Go code are written with \<open>mod\<close>,
  \<open>div\<close> and multiplication by powers of two. \<open>DecodeRune\<close> returns the rune and the
  number of bytes read, and \<open>(RuneError, 1)\<close> for every byte that does not start a
  well-formed sequence (continuation bytes, overlong forms, surrogates, values above
  U+10FFFF, truncated sequences).
\<close>

definition RuneError :: nat where
  "RuneError = 0xFFFD"

definition DecodeRune :: "bytes \<Rightarrow> nat \<times> nat" where
  "DecodeRune p0 = (case p0 of [] \<Rightarrow> (RuneError, 0) | b0 # p \<Rightarrow>
     (let c0 = (of_char b0 :: nat) in
      if c0 < 0x80 then (c0, 1)
      else if c0 < 0xC0 then (RuneError, 1)
      else (case p of [] \<Rightarrow> (RuneError, 1) | b1 # p1 \<Rightarrow>
        (let c1 = (of_char b1 :: nat) in
         if c1 < 0x80 \<or> 0xC0 \<le> c1 then (RuneError, 1)
         else if c0 < 0xE0 then
           (let r = (c0 mod 32) * 64 + c1 mod 64 in
            if r \<le> 0x7F then (RuneError, 1) else (r, 2))
         else (case p1 of [] \<Rightarrow> (RuneError, 1) | b2 # p2 \<Rightarrow>
           (let c2 = (of_char b2 :: nat) in
            if c2 < 0x80 \<or> 0xC0 \<le> c2 then (RuneError, 1)
            else if c0 < 0xF0 then
              (let r = (c0 mod 16) * 4096 + (c1 mod 64) * 64 + c2 mod 64 in
               if r \<le> 0x7FF then (RuneError, 1)
               else if 0xD800 \<le> r \<and> r \<le> 0xDFFF then (RuneError, 1)
               else (r, 3))
            else (case p2 of [] \<Rightarrow> (RuneError, 1) | b3 # p3 \<Rightarrow>
              (let c3 = (of_char b3 :: nat) in
               if c3 < 0x80 \<or> 0xC0 \<le> c3 then (RuneError, 1)
               else if c0 < 0xF8 then
                 (let r = (c0 mod 8) * 262144 + (c1 mod 64) * 4096
                          + (c2 mod 64) * 64 + c3 mod 64 in
                  if r \<le> 0xFFFF \<or> 0x10FFFF < r then (RuneError, 1) else (r, 4))
               else (RuneError, 1)))))))))"

definition EncodeRune :: "nat \<Rightarrow> bytes" where
  "EncodeRune r0 =
     (if r0 \<le> 0x7F then [char_of r0]
      else if r0 \<le> 0x7FF then [char_of (0xC0 + r0 div 64), char_of (0x80 + r0 mod 64)]
      else
        (let r1 = (if 0x10FFFF < r0 then RuneError else r0);
             r = (if 0xD800 \<le> r1 \<and> r1 \<le> 0xDFFF then RuneError else r1) in
         if r \<le> 0xFFFF then
           [char_of (0xE0 + r div 4096), char_of (0x80 + (r div 64) mod 64),
            char_of (0x80 + r mod 64)]
         else
           [char_of (0xF0 + r div 262144), char_of (0x80 + (r div 4096) mod 64),
            char_of (0x80 + (r div 64) mod 64), char_of (0x80 + r mod 64)]))"



subsection \<open>Decoding a well-formed sequence and encoding it again\<close>

lemma DecodeRune_size_le:
  "DecodeRune p = (r, n) \<Longrightarrow> \<not> (r = RuneError \<and> n = 1) \<Longrightarrow> p \<noteq> [] \<Longrightarrow> n \<le> length p \<and> 1 \<le> n"
  by (cases p) (auto simp: DecodeRune_def Let_def RuneError_def split: if_splits list.splits)


lemma char_of_nat_eq_iff [simp]: "(char_of (n::nat) = c) = (n mod 256 = of_char c)"
proof
  assume "char_of n = c"
  then have "of_char (char_of n) = (of_char c :: nat)" by simp
  then show "n mod 256 = of_char c" by (simp add: of_char_of)
next
  assume "n mod 256 = of_char c"
  then have "char_of (n mod 256) = char_of (of_char c :: nat)" by simp
  then show "char_of n = c" by (simp add: char_of_quasi_inj)
qed


lemma DecodeRune_validE:
  assumes "DecodeRune p = (r, n)" and "\<not> (r = RuneError \<and> n = 1)" and "p \<noteq> []"
  obtains
    (one) b0 q where "p = b0 # q" "n = 1" "(of_char b0 :: nat) < 0x80" "r = of_char b0"
  | (two) b0 b1 q where "p = b0 # b1 # q" "n = 2"
      "0xC0 \<le> (of_char b0 :: nat)" "(of_char b0 :: nat) < 0xE0"
      "0x80 \<le> (of_char b1 :: nat)" "(of_char b1 :: nat) < 0xC0"
      "r = (of_char b0 mod 32) * 64 + of_char b1 mod 64" "0x7F < r"
  | (three) b0 b1 b2 q where "p = b0 # b1 # b2 # q" "n = 3"
      "0xE0 \<le> (of_char b0 :: nat)" "(of_char b0 :: nat) < 0xF0"
      "0x80 \<le> (of_char b1 :: nat)" "(of_char b1 :: nat) < 0xC0"
      "0x80 \<le> (of_char b2 :: nat)" "(of_char b2 :: nat) < 0xC0"
      "r = (of_char b0 mod 16) * 4096 + (of_char b1 mod 64) * 64 + of_char b2 mod 64"
      "0x7FF < r" "\<not> (0xD800 \<le> r \<and> r \<le> 0xDFFF)"
  | (four) b0 b1 b2 b3 q where "p = b0 # b1 # b2 # b3 # q" "n = 4"
      "0xF0 \<le> (of_char b0 :: nat)" "(of_char b0 :: nat) < 0xF8"
      "0x80 \<le> (of_char b1 :: nat)" "(of_char b1 :: nat) < 0xC0"
      "0x80 \<le> (of_char b2 :: nat)" "(of_char b2 :: nat) < 0xC0"
      "0x80 \<le> (of_char b3 :: nat)" "(of_char b3 :: nat) < 0xC0"
      "r = (of_char b0 mod 8) * 262144 + (of_char b1 mod 64) * 4096
           + (of_char b2 mod 64) * 64 + of_char b3 mod 64"
      "0xFFFF < r" "r \<le> 0x10FFFF"
  using assms
  by (cases p) (auto simp: DecodeRune_def Let_def RuneError_def split: if_splits list.splits)

lemma mod_offset:
  fixes c :: nat
  assumes "a \<le> c" and "c < a + m" and "a mod m = 0"
  shows "c = a + c mod m"
proof -
  have e: "c = a + (c - a)" using assms(1) by simp
  have "c mod m = (a + (c - a)) mod m" using e by simp
  also have "\<dots> = (a mod m + (c - a)) mod m" by (simp only: mod_add_left_eq)
  also have "\<dots> = (c - a) mod m" by (simp add: assms(3))
  also have "\<dots> = c - a" using assms(1,2) by simp
  finally show ?thesis using assms(1) by simp
qed

lemma div64: "z < 64 \<Longrightarrow> (a * 64 + z) div 64 = (a::nat)"
  by simp
lemma mod64: "z < 64 \<Longrightarrow> (a * 64 + z) mod 64 = (z::nat)"
  by simp

lemma enc3_arith:
  fixes x y z :: nat
  assumes y: "y < 64" and z: "z < 64"
  shows "(x * 4096 + y * 64 + z) div 4096 = x"
    and "((x * 4096 + y * 64 + z) div 64) mod 64 = y"
    and "(x * 4096 + y * 64 + z) mod 64 = z"
proof -
  have e: "x * 4096 + y * 64 + z = (x * 64 + y) * 64 + z" by simp
  have d: "(x * 4096 + y * 64 + z) div 64 = x * 64 + y"
    by (simp only: e div64 [OF z])
  show "((x * 4096 + y * 64 + z) div 64) mod 64 = y"
    by (simp only: d mod64 [OF y])
  show "(x * 4096 + y * 64 + z) mod 64 = z"
    by (simp only: e mod64 [OF z])
  have "(x * 4096 + y * 64 + z) div 4096 = ((x * 4096 + y * 64 + z) div 64) div 64"
    by (simp only: div_mult2_eq [symmetric]) simp
  then show "(x * 4096 + y * 64 + z) div 4096 = x"
    by (simp only: d div64 [OF y])
qed

lemma enc4_arith:
  fixes x y z w :: nat
  assumes y: "y < 64" and z: "z < 64" and w: "w < 64"
  shows "(x * 262144 + y * 4096 + z * 64 + w) div 262144 = x"
    and "((x * 262144 + y * 4096 + z * 64 + w) div 4096) mod 64 = y"
    and "((x * 262144 + y * 4096 + z * 64 + w) div 64) mod 64 = z"
    and "(x * 262144 + y * 4096 + z * 64 + w) mod 64 = w"
proof -
  let ?r = "x * 262144 + y * 4096 + z * 64 + w"
  have e: "?r = ((x * 64 + y) * 64 + z) * 64 + w" by simp
  have d1: "?r div 64 = (x * 64 + y) * 64 + z"
    by (simp only: e div64 [OF w])
  have "?r div 4096 = (?r div 64) div 64"
    by (simp only: div_mult2_eq [symmetric]) simp
  then have d2: "?r div 4096 = x * 64 + y"
    by (simp only: d1 div64 [OF z])
  have "?r div 262144 = (?r div 4096) div 64"
    by (simp only: div_mult2_eq [symmetric]) simp
  then show "?r div 262144 = x"
    by (simp only: d2 div64 [OF y])
  show "(?r div 4096) mod 64 = y"
    by (simp only: d2 mod64 [OF y])
  show "(?r div 64) mod 64 = z"
    by (simp only: d1 mod64 [OF z])
  show "?r mod 64 = w"
    by (simp only: e mod64 [OF w])
qed

lemma DecodeRune_append:
  assumes "DecodeRune p = (r, n)" and "\<not> (r = RuneError \<and> n = 1)" and "p \<noteq> []"
  shows "DecodeRune (take n p @ q') = (r, n)"
  using assms
proof (cases rule: DecodeRune_validE)
  case (one b0 q)
  then show ?thesis by (simp add: DecodeRune_def)
next
  case (two b0 b1 q)
  then show ?thesis by (simp add: DecodeRune_def Let_def)
next
  case (three b0 b1 b2 q)
  then show ?thesis by (simp add: DecodeRune_def Let_def)
next
  case (four b0 b1 b2 b3 q)
  then show ?thesis by (simp add: DecodeRune_def Let_def)
qed

lemma Encode_Decode:
  assumes "DecodeRune p = (r, n)" and "\<not> (r = RuneError \<and> n = 1)" and "p \<noteq> []"
  shows "EncodeRune r = take n p"
  using assms
proof (cases rule: DecodeRune_validE)
  case (one b0 q)
  then show ?thesis by (simp add: EncodeRune_def)
next
  case (two b0 b1 q)
  define x y where "x = (of_char b0 :: nat) mod 32" and "y = (of_char b1 :: nat) mod 64"
  have r: "r = x * 64 + y" using two by (simp add: x_def y_def)
  have y: "y < 64" and x: "x < 32" by (simp_all add: x_def y_def)
  have c0: "of_char b0 = 192 + x" unfolding x_def by (rule mod_offset) (use two(3,4) in simp_all)
  have c1: "of_char b1 = 128 + y" unfolding y_def by (rule mod_offset) (use two(5,6) in simp_all)
  have "r \<le> 0x7FF" using r x y by simp
  moreover have "r div 64 = x" "r mod 64 = y"
    unfolding r using y by simp_all
  ultimately show ?thesis using two(1,2,8) x y
    by (simp add: EncodeRune_def c0 c1)
next
  case (three b0 b1 b2 q)
  define x y z where "x = (of_char b0 :: nat) mod 16" and "y = (of_char b1 :: nat) mod 64"
    and "z = (of_char b2 :: nat) mod 64"
  have r: "r = x * 4096 + y * 64 + z" using three by (simp add: x_def y_def z_def)
  have y: "y < 64" and x: "x < 16" and z: "z < 64" by (simp_all add: x_def y_def z_def)
  have c0: "of_char b0 = 224 + x" unfolding x_def by (rule mod_offset) (use three(3,4) in simp_all)
  have c1: "of_char b1 = 128 + y" unfolding y_def by (rule mod_offset) (use three(5,6) in simp_all)
  have c2: "of_char b2 = 128 + z" unfolding z_def by (rule mod_offset) (use three(7,8) in simp_all)
  have "r \<le> 0xFFFF" using r x y z by simp
  moreover note enc3_arith [OF y z, of x, folded r]
  ultimately show ?thesis using three(1,2,10,11) x y z
    by (auto simp add: EncodeRune_def RuneError_def Let_def c0 c1 c2)
next
  case (four b0 b1 b2 b3 q)
  define x y z w where "x = (of_char b0 :: nat) mod 8" and "y = (of_char b1 :: nat) mod 64"
    and "z = (of_char b2 :: nat) mod 64" and "w = (of_char b3 :: nat) mod 64"
  have r: "r = x * 262144 + y * 4096 + z * 64 + w"
    using four by (simp add: x_def y_def z_def w_def)
  have y: "y < 64" and x: "x < 8" and z: "z < 64" and w: "w < 64"
    by (simp_all add: x_def y_def z_def w_def)
  have c0: "of_char b0 = 240 + x" unfolding x_def by (rule mod_offset) (use four(3,4) in simp_all)
  have c1: "of_char b1 = 128 + y" unfolding y_def by (rule mod_offset) (use four(5,6) in simp_all)
  have c2: "of_char b2 = 128 + z" unfolding z_def by (rule mod_offset) (use four(7,8) in simp_all)
  have c3: "of_char b3 = 128 + w" unfolding w_def by (rule mod_offset) (use four(9,10) in simp_all)
  note enc4_arith [OF y z w, of x, folded r]
  then show ?thesis using four(1,2,12,13) x y z w
    by (simp add: EncodeRune_def RuneError_def Let_def c0 c1 c2 c3)
qed

section \<open>JSON strings as encoding/json writes and reads them\<close>

text \<open>
  \<open>string_enc\<close> is the body of a JSON string literal as Go's encoder writes it
  (\<^verbatim>\<open>encodeState.string\<close>): printable ASCII is copied, the quote and the backslash are
  escaped with a backslash, line feed and carriage return are written as backslash-n and
  backslash-r, every other byte below 0x20 and the characters \<open><\<close>, \<open>>\<close> and \<open>&\<close>
  as a backslash-u escape with four hexadecimal digits, U+2028 and U+2029 likewise, a
  well-formed multi-byte sequence is copied, and every byte that is not part of one is
  replaced by the escape of U+FFFD ("coerced to valid UTF-8", as the package documents).
\<close>

definition hex :: "nat \<Rightarrow> char" where
  "hex n = (if n < 10 then char_of (48 + n) else char_of (87 + n))"

fun string_enc :: "string \<Rightarrow> string" where
  "string_enc [] = []"
| "string_enc (b # s) =
     (if (of_char b :: nat) < 0x80 then
        (if 0x20 \<le> (of_char b :: nat) \<and> b \<noteq> CHR 0x5C \<and> b \<noteq> CHR 0x22
            \<and> b \<noteq> CHR ''<'' \<and> b \<noteq> CHR ''>'' \<and> b \<noteq> CHR ''&''
         then b # string_enc s
         else if b = CHR 0x5C \<or> b = CHR 0x22 then CHR 0x5C # b # string_enc s
         else if b = CHR 0x0A then CHR 0x5C # CHR ''n'' # string_enc s
         else if b = CHR 0x0D then CHR 0x5C # CHR ''r'' # string_enc s
         else CHR 0x5C # CHR ''u'' # CHR ''0'' # CHR ''0'' # hex (of_char b div 16)
              # hex (of_char b mod 16) # string_enc s)
      else (case DecodeRune (b # s) of (r, sz) \<Rightarrow>
        if r = RuneError \<and> sz = 1 then
          CHR 0x5C # CHR ''u'' # CHR ''f'' # CHR ''f'' # CHR ''f'' # CHR ''d'' # string_enc s
        else if r = 0x2028 \<or> r = 0x2029 then
          CHR 0x5C # CHR ''u'' # CHR ''2'' # CHR ''0'' # CHR ''2'' # hex (r mod 16)
          # string_enc (drop (sz - 1) s)
        else take sz (b # s) @ string_enc (drop (sz - 1) s)))"

text \<open>
  The reading side (\<^verbatim>\<open>unquote\<close> after the scanner has accepted the literal).
  \<open>unquote_step c cs\<close> handles the unit that starts with \<open>c\<close>: it returns the bytes
  to append and how many bytes of \<open>cs\<close> the unit takes. A backslash-u escape of a high
  surrogate joins a following escape of a low surrogate; a lone surrogate and an
  ill-formed byte become U+FFFD; a raw control character is an error. \<open>parse_string\<close>
  runs from after the opening quote to the closing quote and returns the decoded string
  and the unread rest.
\<close>

definition hexval :: "char \<Rightarrow> nat option" where
  "hexval c =
     (let n = (of_char c :: nat) in
      if 48 \<le> n \<and> n \<le> 57 then Some (n - 48)
      else if 97 \<le> n \<and> n \<le> 102 then Some (n - 87)
      else if 65 \<le> n \<and> n \<le> 70 then Some (n - 55)
      else None)"

definition hex4 :: "string \<Rightarrow> nat option" where
  "hex4 s = (case s of a # b # c # d # _ \<Rightarrow>
       (case hexval a of None \<Rightarrow> None | Some x \<Rightarrow>
        case hexval b of None \<Rightarrow> None | Some y \<Rightarrow>
        case hexval c of None \<Rightarrow> None | Some z \<Rightarrow>
        case hexval d of None \<Rightarrow> None | Some w \<Rightarrow>
          Some (((x * 16 + y) * 16 + z) * 16 + w))
     | _ \<Rightarrow> None)"

definition getu4 :: "string \<Rightarrow> nat option" where
  "getu4 s = (case s of c # u # r \<Rightarrow>
       if c = CHR 0x5C \<and> u = CHR ''u'' then hex4 r else None
     | _ \<Rightarrow> None)"

definition unescape :: "char \<Rightarrow> char option" where
  "unescape e =
     (if e = CHR 0x22 \<or> e = CHR 0x5C \<or> e = CHR ''/'' then Some e
      else if e = CHR ''b'' then Some (CHR 0x08)
      else if e = CHR ''f'' then Some (CHR 0x0C)
      else if e = CHR ''n'' then Some (CHR 0x0A)
      else if e = CHR ''r'' then Some (CHR 0x0D)
      else if e = CHR ''t'' then Some (CHR 0x09)
      else None)"

definition emit :: "string \<Rightarrow> (string \<times> string) option \<Rightarrow> (string \<times> string) option" where
  "emit bs res = (case res of None \<Rightarrow> None | Some (s, rest) \<Rightarrow> Some (bs @ s, rest))"

definition unquote_step :: "char \<Rightarrow> string \<Rightarrow> (string \<times> nat) option" where
  "unquote_step c cs =
     (if c = CHR 0x5C then
        (case cs of [] \<Rightarrow> None | e # r \<Rightarrow>
           if e = CHR ''u'' then
             (case hex4 r of None \<Rightarrow> None | Some rr \<Rightarrow>
                if 0xD800 \<le> rr \<and> rr < 0xE000 then
                  (case getu4 (drop 4 r) of
                     None \<Rightarrow> Some (EncodeRune RuneError, 5)
                   | Some rr1 \<Rightarrow>
                       if rr < 0xDC00 \<and> 0xDC00 \<le> rr1 \<and> rr1 < 0xE000 then
                         Some (EncodeRune ((rr - 0xD800) * 0x400 + (rr1 - 0xDC00) + 0x10000), 11)
                       else Some (EncodeRune RuneError, 5))
                else Some (EncodeRune rr, 5))
           else (case unescape e of None \<Rightarrow> None | Some ch \<Rightarrow> Some ([ch], 1)))
      else if (of_char c :: nat) < 0x20 then None
      else if (of_char c :: nat) < 0x80 then Some ([c], 0)
      else (case DecodeRune (c # cs) of (rr, sz) \<Rightarrow> Some (EncodeRune rr, sz - 1)))"

fun parse_string :: "string \<Rightarrow> (string \<times> string) option" where
  "parse_string [] = None"
| "parse_string (c # cs) =
     (if c = CHR 0x22 then Some ([], cs)
      else (case unquote_step c cs of None \<Rightarrow> None
            | Some (bs, k) \<Rightarrow> emit bs (parse_string (drop k cs))))"

text \<open>
  \<open>utf8_valid\<close> holds of the strings made of well-formed sequences only;
  \<open>coerce_utf8\<close> replaces every other byte by the three bytes of U+FFFD and keeps the
  rest.
\<close>

fun utf8_valid :: "string \<Rightarrow> bool" where
  "utf8_valid [] = True"
| "utf8_valid (b # s) =
     (case DecodeRune (b # s) of (r, sz) \<Rightarrow>
        \<not> (r = RuneError \<and> sz = 1) \<and> utf8_valid (drop (sz - 1) s))"

fun coerce_utf8 :: "string \<Rightarrow> string" where
  "coerce_utf8 [] = []"
| "coerce_utf8 (b # s) =
     (case DecodeRune (b # s) of (r, sz) \<Rightarrow>
        if r = RuneError \<and> sz = 1 then EncodeRune RuneError @ coerce_utf8 s
        else take sz (b # s) @ coerce_utf8 (drop (sz - 1) s))"


subsection \<open>Reading back what the encoder wrote\<close>

lemma hexval_hex: "k < 16 \<Longrightarrow> hexval (hex k) = Some k"
  by (auto simp: hexval_def hex_def of_char_of Let_def)

lemma hexval_digits: "hexval (CHR ''0'') = Some 0" "hexval (CHR ''2'') = Some 2"
  by (simp_all add: hexval_def)

lemma hex4_u00:
  "c < 256 \<Longrightarrow> hex4 (CHR ''0'' # CHR ''0'' # hex (c div 16) # hex (c mod 16) # t) = Some c"
  by (simp add: hex4_def hexval_hex hexval_digits)

lemma hex4_u202:
  "k < 16 \<Longrightarrow> hex4 (CHR ''2'' # CHR ''0'' # CHR ''2'' # hex k # t) = Some (0x2020 + k)"
  by (simp add: hex4_def hexval_hex hexval_digits)

lemma EncodeRune_ascii: "(of_char b :: nat) < 0x80 \<Longrightarrow> EncodeRune (of_char b) = [b]"
  by (simp add: EncodeRune_def)

lemma emit_Some [simp]: "emit bs (Some (s, rest)) = Some (bs @ s, rest)"
  by (simp add: emit_def)

lemma hex4_fffd: "hex4 (CHR ''f'' # CHR ''f'' # CHR ''f'' # CHR ''d'' # t) = Some RuneError"
  by (simp add: hex4_def hexval_def RuneError_def)

lemma parse_string_enc_coerce:
  "parse_string (string_enc s @ CHR 0x22 # rest) = Some (coerce_utf8 s, rest)"
proof (induction "length s" arbitrary: s rule: less_induct)
  case less
  show ?case
  proof (cases s)
    case Nil
    then show ?thesis by simp
  next
    case (Cons b t)
    show ?thesis
    proof (cases "(of_char b :: nat) < 0x80")
      case True
      then have dr: "DecodeRune (b # t) = (of_char b, 1)"
        by (simp add: DecodeRune_def)
      have co: "coerce_utf8 s = b # coerce_utf8 t"
        using True by (simp add: Cons dr RuneError_def)
      have ih: "parse_string (string_enc t @ CHR 0x22 # rest) = Some (coerce_utf8 t, rest)"
        using less.hyps [of t] Cons by simp
      have lt: "(of_char b :: nat) < 256" using True by simp
      show ?thesis
        unfolding co
        using True ih hex4_u00 [OF lt] EncodeRune_ascii [OF True]
        by (auto simp: Cons unescape_def unquote_step_def)
    next
      case False
      obtain r n where dr: "DecodeRune (b # t) = (r, n)"
        by (cases "DecodeRune (b # t)")
      show ?thesis
      proof (cases "r = RuneError \<and> n = 1")
        case True
        have co: "coerce_utf8 s = EncodeRune RuneError @ coerce_utf8 t"
          using True by (simp add: Cons dr)
        have ih: "parse_string (string_enc t @ CHR 0x22 # rest) = Some (coerce_utf8 t, rest)"
          using less.hyps [of t] Cons by simp
        have se: "string_enc s = CHR 0x5C # CHR ''u'' # CHR ''f'' # CHR ''f'' # CHR ''f''
            # CHR ''d'' # string_enc t"
          using True False by (simp add: Cons dr)
        have ns: "(55296 \<le> RuneError \<and> RuneError < 57344) = False"
          by (simp add: RuneError_def)
        show ?thesis
          unfolding co se using ih
          by (simp add: unquote_step_def hex4_fffd ns)
      next
        case ok: False
        have co: "coerce_utf8 s = take n (b # t) @ coerce_utf8 (drop (n - 1) t)"
          using ok by (auto simp add: Cons dr)
        have n: "n \<le> length (b # t)" "1 \<le> n"
          using DecodeRune_size_le [OF dr ok] by simp_all
        have ih: "parse_string (string_enc (drop (n - 1) t) @ CHR 0x22 # rest)
                    = Some (coerce_utf8 (drop (n - 1) t), rest)"
          using less.hyps [of "drop (n - 1) t"] Cons by simp
        have tk: "take n (b # t) = b # take (n - 1) t"
          using n by (cases n) simp_all
        have enc: "EncodeRune r = b # take (n - 1) t"
          using Encode_Decode [OF dr ok] tk by simp
        show ?thesis
        proof (cases "r = 0x2028 \<or> r = 0x2029")
          case True
          then have "hex4 (CHR ''2'' # CHR ''0'' # CHR ''2'' # hex (r mod 16)
                       # string_enc (drop (n - 1) t) @ CHR 0x22 # rest) = Some r"
            using hex4_u202 [of "r mod 16"] by auto
          then show ?thesis
            unfolding co tk
            using True False dr ok ih enc
            by (auto simp: Cons unquote_step_def)
        next
          case nsep: False
          define Y where "Y = string_enc (drop (n - 1) t) @ CHR 0x22 # rest"
          define X where "X = take (n - 1) t @ Y"
          have app: "DecodeRune (b # X) = (r, n)"
            using DecodeRune_append [OF dr ok, of Y] tk by (simp add: X_def)
          have dr2: "drop (n - 1) X = Y" using n by (simp add: X_def)
          have se: "string_enc s @ CHR 0x22 # rest = b # X"
            using False dr nsep ok by (auto simp add: Cons tk X_def Y_def)
          have nq: "b \<noteq> CHR 0x22" "b \<noteq> CHR 0x5C" "\<not> (of_char b :: nat) < 0x20"
            using False by auto
          have "parse_string (b # X) = emit (EncodeRune r) (parse_string Y)"
            using nq False app dr2 by (simp add: unquote_step_def)
          also have "\<dots> = Some (coerce_utf8 s, rest)"
            using ih by (simp add: enc Y_def co tk)
          finally show ?thesis by (simp only: se)
        qed
      qed
    qed
  qed
qed

lemma coerce_utf8_valid: "utf8_valid s \<Longrightarrow> coerce_utf8 s = s"
proof (induction "length s" arbitrary: s rule: less_induct)
  case less
  show ?case
  proof (cases s)
    case Nil
    then show ?thesis by simp
  next
    case (Cons b t)
    obtain r n where dr: "DecodeRune (b # t) = (r, n)"
      by (cases "DecodeRune (b # t)")
    with less.prems Cons have ok: "\<not> (r = RuneError \<and> n = 1)"
      and v: "utf8_valid (drop (n - 1) t)" by simp_all
    have n: "n \<le> length (b # t)" "1 \<le> n"
      using DecodeRune_size_le [OF dr ok] by simp_all
    have ih: "coerce_utf8 (drop (n - 1) t) = drop (n - 1) t"
      using less.hyps [of "drop (n - 1) t"] v Cons by simp
    have tk: "take n (b # t) = b # take (n - 1) t"
      using n by (cases n) simp_all
    show ?thesis using ok ih by (auto simp add: Cons dr tk)
  qed
qed

lemma parse_string_enc:
  "utf8_valid s \<Longrightarrow> parse_string (string_enc s @ CHR 0x22 # rest) = Some (s, rest)"
  by (simp add: parse_string_enc_coerce coerce_utf8_valid)

section \<open>JSON numbers and values\<close>

text \<open>
  \<open>FormatInt\<close> is \<^verbatim>\<open>strconv.FormatInt(i, 10)\<close>, which the encoder uses for an
  \<^verbatim>\<open>int64\<close> such as a \<^verbatim>\<open>time.Duration\<close>. \<open>parse_number\<close> follows the number
  grammar of the scanner (optional minus, \<open>0\<close> or a digit from 1 to 9 followed by
  digits, optional fraction, optional exponent) and returns the literal and the rest.
  \<open>ParseInt64\<close> is \<^verbatim>\<open>strconv.ParseInt(lit, 10, 64)\<close> on such a literal: it fails
  on a fraction, an exponent and a value outside the 64-bit range.
\<close>

definition is_digit :: "char \<Rightarrow> bool" where
  "is_digit c = (48 \<le> (of_char c :: nat) \<and> (of_char c :: nat) \<le> 57)"

fun format_digits :: "nat \<Rightarrow> string" where
  "format_digits n =
     (if n < 10 then [char_of (48 + n)]
      else format_digits (n div 10) @ [char_of (48 + n mod 10)])"

declare format_digits.simps [simp del]

definition FormatInt :: "int \<Rightarrow> string" where
  "FormatInt i = (if i < 0 then CHR ''-'' # format_digits (nat (- i)) else format_digits (nat i))"

definition digits_val :: "string \<Rightarrow> nat" where
  "digits_val ds = foldl (\<lambda>a c. a * 10 + (of_char c - 48)) 0 ds"

definition scan_exp :: "string \<Rightarrow> string \<Rightarrow> (string \<times> string) option" where
  "scan_exp lit r = (case r of [] \<Rightarrow> Some (lit, r) | c # r1 \<Rightarrow>
     if c = CHR ''e'' \<or> c = CHR ''E'' then
       (let (sg, r2) = (case r1 of [] \<Rightarrow> ([], r1)
                        | d # r' \<Rightarrow> if d = CHR ''+'' \<or> d = CHR ''-'' then ([d], r') else ([], r1));
            ds = takeWhile is_digit r2
        in if ds = [] then None else Some (lit @ c # sg @ ds, dropWhile is_digit r2))
     else Some (lit, r))"

definition scan_frac :: "string \<Rightarrow> string \<Rightarrow> (string \<times> string) option" where
  "scan_frac lit r = (case r of [] \<Rightarrow> scan_exp lit r | c # r1 \<Rightarrow>
     if c = CHR ''.'' then
       (let ds = takeWhile is_digit r1
        in if ds = [] then None else scan_exp (lit @ c # ds) (dropWhile is_digit r1))
     else scan_exp lit r)"

definition parse_number :: "string \<Rightarrow> (string \<times> string) option" where
  "parse_number s =
     (let (sign, s1) = (case s of [] \<Rightarrow> ([], s)
                         | c # r \<Rightarrow> if c = CHR ''-'' then ([c], r) else ([], s))
      in case s1 of [] \<Rightarrow> None
         | c # r \<Rightarrow>
             if c = CHR ''0'' then scan_frac (sign @ [c]) r
             else if is_digit c then
               scan_frac (sign @ c # takeWhile is_digit r) (dropWhile is_digit r)
             else None)"

definition ParseInt64 :: "string \<Rightarrow> 64 word option" where
  "ParseInt64 lit =
     (let (neg, ds) = (case lit of [] \<Rightarrow> (False, lit)
                        | c # r \<Rightarrow> if c = CHR ''-'' then (True, r) else (False, lit))
      in if ds = [] \<or> \<not> list_all is_digit ds then None
         else (let i = (if neg then - int (digits_val ds) else int (digits_val ds))
               in if - (2 ^ 63) \<le> i \<and> i < 2 ^ 63 then Some (word_of_int i) else None))"

text \<open>
  A parsed JSON value. A number keeps its literal, since its conversion depends on the
  field it is stored in.
\<close>

datatype json = JNull | JBool bool | JNumber string | JString string
  | JArray "json list" | JObject "(string \<times> json) list"

definition is_space :: "char \<Rightarrow> bool" where
  "is_space c = (c = CHR '' '' \<or> c = CHR 0x09 \<or> c = CHR 0x0D \<or> c = CHR 0x0A)"

definition skip_ws :: "string \<Rightarrow> string" where
  "skip_ws s = dropWhile is_space s"

definition parse_literal :: "string \<Rightarrow> (json \<times> string) option" where
  "parse_literal s =
     (if take 4 s = ''true'' then Some (JBool True, drop 4 s)
      else if take 5 s = ''false'' then Some (JBool False, drop 5 s)
      else if take 4 s = ''null'' then Some (JNull, drop 4 s)
      else None)"

lemma length_skip_ws: "length (skip_ws s) \<le> length s"
  by (simp add: skip_ws_def length_dropWhile_le)

lemma emit_SomeD: "emit bs res = Some (v, r) \<Longrightarrow> \<exists>v'. res = Some (v', r)"
  by (auto simp: emit_def split: option.splits)

lemma parse_string_shorter: "parse_string s = Some (v, r) \<Longrightarrow> length r < length s"
proof (induction "length s" arbitrary: s v rule: less_induct)
  case less
  show ?case
  proof (cases s)
    case Nil
    with less.prems show ?thesis by simp
  next
    case (Cons c cs)
    show ?thesis
    proof (cases "c = CHR 0x22")
      case True
      with less.prems Cons show ?thesis by simp
    next
      case False
      with less.prems Cons obtain bs k where
        e: "emit bs (parse_string (drop k cs)) = Some (v, r)"
        by (auto split: option.splits)
      from emit_SomeD [OF e] obtain v' where p: "parse_string (drop k cs) = Some (v', r)" ..
      have "length (drop k cs) < length s" using Cons by simp
      from less.hyps [OF this p] show ?thesis using Cons by simp
    qed
  qed
qed

section \<open>Reading one JSON value from a stream\<close>

text \<open>
  \<open>parse_value\<close> skips white space and reads one value, returning it with the unread
  rest of the input, as \<^verbatim>\<open>json.Decoder\<close> does between two calls of
  \<^verbatim>\<open>Decode\<close>; \<open>None\<close> stands for a syntax error or an input that ends too early.
  \<open>parse_elems\<close> reads the elements of an array after the first one is known to
  exist, \<open>parse_members\<close> the members of an object. The functions recurse on the rest
  that an earlier call returned; the tests \<open>length r < length s\<close> make that recursion
  well-founded, and the lemmas \<open>parse_value_shorter\<close> and its companions below show
  that they always hold.
\<close>

lemma skip_ws_Cons_length: "skip_ws s = c # cs \<Longrightarrow> length cs < length s"
  using length_skip_ws [of s] by simp

function parse_value :: "string \<Rightarrow> (json \<times> string) option"
  and parse_elems :: "string \<Rightarrow> (json list \<times> string) option"
  and parse_members :: "string \<Rightarrow> ((string \<times> json) list \<times> string) option"
where
  "parse_value s = (case skip_ws s of [] \<Rightarrow> None | c # cs \<Rightarrow>
     if c = CHR ''{'' then
       (case skip_ws cs of [] \<Rightarrow> None | c' # r \<Rightarrow>
          if c' = CHR ''}'' then Some (JObject [], r)
          else map_option (apfst JObject) (parse_members cs))
     else if c = CHR ''['' then
       (case skip_ws cs of [] \<Rightarrow> None | c' # r \<Rightarrow>
          if c' = CHR '']'' then Some (JArray [], r)
          else map_option (apfst JArray) (parse_elems cs))
     else if c = CHR 0x22 then map_option (apfst JString) (parse_string cs)
     else if c = CHR ''-'' \<or> is_digit c then map_option (apfst JNumber) (parse_number (c # cs))
     else parse_literal (c # cs))"
| "parse_elems s = (case parse_value s of None \<Rightarrow> None | Some (v, r) \<Rightarrow>
     if length r < length s then
       (case skip_ws r of [] \<Rightarrow> None | c # r' \<Rightarrow>
          if c = CHR '','' then map_option (apfst ((#) v)) (parse_elems r')
          else if c = CHR '']'' then Some ([v], r')
          else None)
     else None)"
| "parse_members s = (case skip_ws s of [] \<Rightarrow> None | c # cs \<Rightarrow>
     if c = CHR 0x22 then
       (case parse_string cs of None \<Rightarrow> None | Some (k, r) \<Rightarrow>
          (case skip_ws r of [] \<Rightarrow> None | c1 # r1 \<Rightarrow>
             if c1 = CHR '':'' then
               (case parse_value r1 of None \<Rightarrow> None | Some (v, r2) \<Rightarrow>
                  if length r2 < length r1 then
                    (case skip_ws r2 of [] \<Rightarrow> None | c2 # r3 \<Rightarrow>
                       if c2 = CHR '','' then map_option (apfst ((#) (k, v))) (parse_members r3)
                       else if c2 = CHR ''}'' then Some ([(k, v)], r3)
                       else None)
                  else None)
             else None))
     else None)"
  by pat_completeness auto

termination
proof (relation "measure (\<lambda>x. case x of Inl s \<Rightarrow> 2 * length s
                                  | Inr (Inl s) \<Rightarrow> 2 * length s + 1
                                  | Inr (Inr s) \<Rightarrow> 2 * length s + 1)", goal_cases)
  case 1
  show ?case by simp
next
  case (2 s c cs c' r)
  then show ?case using skip_ws_Cons_length [of s c cs] by simp
next
  case (3 s c cs c' r)
  then show ?case using skip_ws_Cons_length [of s c cs] by simp
next
  case (4 s)
  then show ?case by simp
next
  case (5 s x2 v r c r')
  then show ?case using skip_ws_Cons_length [of r c r'] by simp
next
  case (6 s c cs x2 k r c1 r1)
  then show ?case
    using skip_ws_Cons_length [of s c cs] skip_ws_Cons_length [of r c1 r1]
      parse_string_shorter [of cs k r] by simp
next
  case (7 s c cs x2 k r c1 r1 x2a v r2 c2 r3)
  then show ?case
    using skip_ws_Cons_length [of s c cs] skip_ws_Cons_length [of r c1 r1]
      skip_ws_Cons_length [of r2 c2 r3]
      parse_string_shorter [of cs k r] by simp
qed

declare parse_value.simps [simp del] parse_elems.simps [simp del] parse_members.simps [simp del]

subsection \<open>Every successful read consumes input\<close>

lemma scan_exp_le: "scan_exp lit r = Some (l, r') \<Longrightarrow> length r' \<le> length r"
proof (cases r)
  case Nil
  then show "scan_exp lit r = Some (l, r') \<Longrightarrow> length r' \<le> length r"
    by (simp add: scan_exp_def)
next
  case (Cons c r1)
  assume a: "scan_exp lit r = Some (l, r')"
  show "length r' \<le> length r"
  proof (cases "c = CHR ''e'' \<or> c = CHR ''E''")
    case False
    with a Cons show ?thesis by (auto simp: scan_exp_def)
  next
    case True
    obtain sg r2 where sg: "(case r1 of [] \<Rightarrow> ([], r1)
        | d # r' \<Rightarrow> if d = CHR ''+'' \<or> d = CHR ''-'' then ([d], r') else ([], r1)) = (sg, r2)"
      by (cases "(case r1 of [] \<Rightarrow> ([]::string, r1)
        | d # r' \<Rightarrow> if d = CHR ''+'' \<or> d = CHR ''-'' then ([d], r') else ([], r1))")
    then have l2: "length r2 \<le> length r1"
      by (auto split: list.splits if_splits)
    from a Cons True sg have "r' = dropWhile is_digit r2"
      by (auto simp: scan_exp_def Let_def split: if_splits)
    then have "length r' \<le> length r2" by (simp add: length_dropWhile_le)
    with l2 Cons show ?thesis by simp
  qed
qed

lemma scan_frac_le: "scan_frac lit r = Some (l, r') \<Longrightarrow> length r' \<le> length r"
proof (cases r)
  case Nil
  then show "scan_frac lit r = Some (l, r') \<Longrightarrow> length r' \<le> length r"
    using scan_exp_le [of lit r l r'] by (simp add: scan_frac_def)
next
  case (Cons c r1)
  assume a: "scan_frac lit r = Some (l, r')"
  show "length r' \<le> length r"
  proof (cases "c = CHR ''.''")
    case False
    with a Cons show ?thesis using scan_exp_le [of lit r l r'] by (simp add: scan_frac_def)
  next
    case True
    with a Cons have "scan_exp (lit @ c # takeWhile is_digit r1) (dropWhile is_digit r1) = Some (l, r')"
      by (auto simp: scan_frac_def Let_def split: if_splits)
    from scan_exp_le [OF this] have "length r' \<le> length (dropWhile is_digit r1)" .
    also have "\<dots> \<le> length r1" by (rule length_dropWhile_le)
    finally show ?thesis using Cons by simp
  qed
qed

lemma parse_number_shorter: "parse_number s = Some (l, r') \<Longrightarrow> length r' < length s"
proof -
  assume a: "parse_number s = Some (l, r')"
  obtain sign s1 where sg: "(case s of [] \<Rightarrow> ([], s)
      | c # r \<Rightarrow> if c = CHR ''-'' then ([c], r) else ([], s)) = (sign, s1)"
    by (cases "(case s of [] \<Rightarrow> ([]::string, s)
      | c # r \<Rightarrow> if c = CHR ''-'' then ([c], r) else ([], s))")
  then have l1: "length s1 \<le> length s" by (auto split: list.splits if_splits)
  from a sg obtain c r where s1: "s1 = c # r" 
    by (cases s1) (auto simp: parse_number_def)
  from a sg s1 have "scan_frac (sign @ [c]) r = Some (l, r')
      \<or> scan_frac (sign @ c # takeWhile is_digit r) (dropWhile is_digit r) = Some (l, r')"
    by (auto simp: parse_number_def split: if_splits)
  then have "length r' \<le> length r"
    using scan_frac_le length_dropWhile_le [of is_digit r] by (metis order_trans)
  with l1 s1 show ?thesis by simp
qed

lemma parse_literal_shorter: "parse_literal s = Some (v, r) \<Longrightarrow> length r < length s"
  by (cases s) (auto simp: parse_literal_def split: if_splits)

lemma parse_elems_shorter: "parse_elems s = Some (vs, r) \<Longrightarrow> length r < length s"
proof (induction "length s" arbitrary: s vs rule: less_induct)
  case less
  from less.prems obtain v r0 where pv: "parse_value s = Some (v, r0)" and g: "length r0 < length s"
    by (subst (asm) parse_elems.simps) (auto split: option.splits if_splits)
  from less.prems pv g obtain c r' where sk: "skip_ws r0 = c # r'"
    by (subst (asm) parse_elems.simps) (auto split: list.splits)
  have l: "length r' < length r0" by (rule skip_ws_Cons_length [OF sk])
  from less.prems pv g sk have "(c = CHR '','' \<and> (\<exists>vs'. parse_elems r' = Some (vs', r)))
      \<or> (c = CHR '']'' \<and> r = r')"
    by (subst (asm) parse_elems.simps) (auto split: if_splits)
  then show ?case
  proof
    assume "c = CHR '','' \<and> (\<exists>vs'. parse_elems r' = Some (vs', r))"
    then obtain vs' where "parse_elems r' = Some (vs', r)" by blast
    from less.hyps [OF _ this] l g show ?thesis by simp
  next
    assume "c = CHR '']'' \<and> r = r'"
    with l g show ?thesis by simp
  qed
qed

lemma parse_members_shorter: "parse_members s = Some (ms, r) \<Longrightarrow> length r < length s"
proof (induction "length s" arbitrary: s ms rule: less_induct)
  case less
  from less.prems obtain c cs where sk0: "skip_ws s = c # cs"
    by (subst (asm) parse_members.simps) (auto split: list.splits)
  from less.prems sk0 obtain k r0 where ps: "parse_string cs = Some (k, r0)"
    by (subst (asm) parse_members.simps) (auto split: option.splits if_splits)
  from less.prems sk0 ps obtain c1 r1 where sk1: "skip_ws r0 = c1 # r1"
    by (subst (asm) parse_members.simps) (auto split: list.splits if_splits)
  from less.prems sk0 ps sk1 obtain v r2 where pv: "parse_value r1 = Some (v, r2)"
      and g: "length r2 < length r1"
    by (subst (asm) parse_members.simps) (auto split: option.splits if_splits)
  from less.prems sk0 ps sk1 pv g obtain c2 r3 where sk2: "skip_ws r2 = c2 # r3"
    by (subst (asm) parse_members.simps) (auto split: list.splits if_splits)
  have l: "length r3 < length s"
    using skip_ws_Cons_length [OF sk0] skip_ws_Cons_length [OF sk1] skip_ws_Cons_length [OF sk2]
      parse_string_shorter [OF ps] g by simp
  from less.prems sk0 ps sk1 pv g sk2
  have "(c2 = CHR '','' \<and> (\<exists>ms'. parse_members r3 = Some (ms', r)))
      \<or> (c2 = CHR ''}'' \<and> r = r3)"
    by (subst (asm) parse_members.simps) (auto split: if_splits)
  then show ?case
  proof
    assume "c2 = CHR '','' \<and> (\<exists>ms'. parse_members r3 = Some (ms', r))"
    then obtain ms' where "parse_members r3 = Some (ms', r)" by blast
    from less.hyps [OF l this] l show ?thesis by simp
  next
    assume "c2 = CHR ''}'' \<and> r = r3"
    with l show ?thesis by simp
  qed
qed

lemma parse_value_shorter: "parse_value s = Some (v, r) \<Longrightarrow> length r < length s"
proof -
  assume a: "parse_value s = Some (v, r)"
  then obtain c cs where sk: "skip_ws s = c # cs"
    by (subst (asm) parse_value.simps) (auto split: list.splits)
  have l: "length cs < length s" by (rule skip_ws_Cons_length [OF sk])
  consider (obj) "c = CHR ''{''" | (arr) "c \<noteq> CHR ''{''" "c = CHR ''[''"
    | (str) "c \<noteq> CHR ''{''" "c \<noteq> CHR ''[''" "c = CHR 0x22"
    | (num) "c \<noteq> CHR ''{''" "c \<noteq> CHR ''[''" "c \<noteq> CHR 0x22" "c = CHR ''-'' \<or> is_digit c"
    | (lit) "c \<noteq> CHR ''{''" "c \<noteq> CHR ''[''" "c \<noteq> CHR 0x22" "\<not> (c = CHR ''-'' \<or> is_digit c)"
    by blast
  then show ?thesis
  proof cases
    case obj
    from a sk obj obtain c' r' where sk': "skip_ws cs = c' # r'"
      by (subst (asm) parse_value.simps) (auto split: list.splits)
    show ?thesis
    proof (cases "c' = CHR ''}''")
      case True
      with a sk obj sk' have "r = r'" by (subst (asm) parse_value.simps) simp
      with skip_ws_Cons_length [OF sk'] l show ?thesis by simp
    next
      case False
      with a sk obj sk' obtain ms where "parse_members cs = Some (ms, r)"
        by (subst (asm) parse_value.simps) auto
      from parse_members_shorter [OF this] l show ?thesis by simp
    qed
  next
    case arr
    from a sk arr obtain c' r' where sk': "skip_ws cs = c' # r'"
      by (subst (asm) parse_value.simps) (auto split: list.splits)
    show ?thesis
    proof (cases "c' = CHR '']''")
      case True
      with a sk arr sk' have "r = r'" by (subst (asm) parse_value.simps) simp
      with skip_ws_Cons_length [OF sk'] l show ?thesis by simp
    next
      case False
      with a sk arr sk' obtain vs where "parse_elems cs = Some (vs, r)"
        by (subst (asm) parse_value.simps) auto
      from parse_elems_shorter [OF this] l show ?thesis by simp
    qed
  next
    case str
    with a sk obtain k where "parse_string cs = Some (k, r)"
      by (subst (asm) parse_value.simps) auto
    from parse_string_shorter [OF this] l show ?thesis by simp
  next
    case num
    with a sk obtain k where "parse_number (c # cs) = Some (k, r)"
      by (subst (asm) parse_value.simps) auto
    from parse_number_shorter [OF this] l show ?thesis by simp
  next
    case lit
    with a sk have "parse_literal (c # cs) = Some (v, r)"
      by (subst (asm) parse_value.simps) auto
    from parse_literal_shorter [OF this] l show ?thesis by simp
  qed
qed

section \<open>The snapshot types and their JSON form\<close>

text \<open>
  \<^verbatim>\<open>connDiagInfo\<close> and \<^verbatim>\<open>diagInfo\<close> (diag.go, lines 45 to 56).
  \<^verbatim>\<open>time.Duration\<close> is an \<^verbatim>\<open>int64\<close> of nanoseconds. The field \<open>ID\<close> of
  \<^verbatim>\<open>connDiagInfo\<close> is called \<open>ConnID\<close> here, since both records have a field of
  that name; its JSON key is \<open>ID\<close>. A slice field is an \<open>option\<close>: \<open>None\<close> is the
  nil slice, which JSON writes as \<open>null\<close>, and \<open>Some []\<close> the empty one, written
  \<open>[]\<close>.
\<close>

type_synonym Duration = "64 word"

record connDiagInfo =
  Latency :: Duration
  ConnID :: string

record diagInfo =
  ID :: string
  Connections :: "connDiagInfo list option"
  Keys :: "string list option"
  LifeSpan :: Duration
  CodeVersion :: string

text \<open>
  The bytes \<^verbatim>\<open>json.Marshal\<close> writes for the two structs: an object with the fields
  in the order of declaration, each under its Go name (the structs have no tags), without
  white space.
\<close>

definition quote :: "string \<Rightarrow> string" where
  "quote s = CHR 0x22 # string_enc s @ [CHR 0x22]"

definition field :: "string \<Rightarrow> string \<Rightarrow> string" where
  "field name v = quote name @ CHR '':'' # v"

fun commas :: "string list \<Rightarrow> string" where
  "commas [] = []"
| "commas [x] = x"
| "commas (x # y # ys) = x @ CHR '','' # commas (y # ys)"

definition encode_slice :: "('a \<Rightarrow> string) \<Rightarrow> 'a list option \<Rightarrow> string" where
  "encode_slice f xs = (case xs of None \<Rightarrow> ''null''
     | Some ys \<Rightarrow> CHR ''['' # commas (map f ys) @ [CHR '']''])"

definition encode_connDiagInfo :: "connDiagInfo \<Rightarrow> string" where
  "encode_connDiagInfo c =
     CHR ''{'' # field ''Latency'' (FormatInt (sint (Latency c))) @
     CHR '','' # field ''ID'' (quote (ConnID c)) @ [CHR ''}'']"

definition encode_diagInfo :: "diagInfo \<Rightarrow> string" where
  "encode_diagInfo di =
     CHR ''{'' # field ''ID'' (quote (ID di)) @
     CHR '','' # field ''Connections'' (encode_slice encode_connDiagInfo (Connections di)) @
     CHR '','' # field ''Keys'' (encode_slice quote (Keys di)) @
     CHR '','' # field ''LifeSpan'' (FormatInt (sint (LifeSpan di))) @
     CHR '','' # field ''CodeVersion'' (quote (CodeVersion di)) @ [CHR ''}'']"

text \<open>
  \<^verbatim>\<open>json.Marshal\<close> walks a value by reflection and returns an error for a kind it does
  not support (a channel, a function, a complex number). \<open>gval\<close> is what reflection sees,
  \<open>encode_val\<close> the walk, and \<open>reflect_diagInfo\<close> the view of a snapshot; on a
  snapshot the walk returns exactly \<open>encode_diagInfo\<close> (lemma
  \<open>encode_val_diagInfo\<close>).
\<close>

datatype gval = VString string | VInt Duration | VNilSlice | VSlice "gval list"
  | VStruct "string list" "gval list" | VUnsupported string

fun sequence_sum :: "('e + 'a) list \<Rightarrow> 'e + 'a list" where
  "sequence_sum [] = Inr []"
| "sequence_sum (x # xs) = (case x of Inl e \<Rightarrow> Inl e
     | Inr y \<Rightarrow> (case sequence_sum xs of Inl e \<Rightarrow> Inl e | Inr ys \<Rightarrow> Inr (y # ys)))"

fun encode_val :: "gval \<Rightarrow> string + string" where
  "encode_val (VString s) = Inr (quote s)"
| "encode_val (VInt i) = Inr (FormatInt (sint i))"
| "encode_val VNilSlice = Inr ''null''"
| "encode_val (VSlice vs) = (case sequence_sum (map encode_val vs) of Inl e \<Rightarrow> Inl e
     | Inr xs \<Rightarrow> Inr (CHR ''['' # commas xs @ [CHR '']'']))"
| "encode_val (VStruct names vs) = (case sequence_sum (map encode_val vs) of Inl e \<Rightarrow> Inl e
     | Inr xs \<Rightarrow> Inr (CHR ''{'' # commas (map2 field names xs) @ [CHR ''}'']))"
| "encode_val (VUnsupported kind) = Inl (''json: unsupported type: '' @ kind)"

definition reflect_slice :: "('a \<Rightarrow> gval) \<Rightarrow> 'a list option \<Rightarrow> gval" where
  "reflect_slice f xs = (case xs of None \<Rightarrow> VNilSlice | Some ys \<Rightarrow> VSlice (map f ys))"

definition reflect_connDiagInfo :: "connDiagInfo \<Rightarrow> gval" where
  "reflect_connDiagInfo c = VStruct [''Latency'', ''ID''] [VInt (Latency c), VString (ConnID c)]"

definition reflect_diagInfo :: "diagInfo \<Rightarrow> gval" where
  "reflect_diagInfo di =
     VStruct [''ID'', ''Connections'', ''Keys'', ''LifeSpan'', ''CodeVersion'']
       [VString (ID di),
        reflect_slice reflect_connDiagInfo (Connections di),
        reflect_slice VString (Keys di),
        VInt (LifeSpan di),
        VString (CodeVersion di)]"

lemma encode_val_conn: "encode_val (reflect_connDiagInfo c) = Inr (encode_connDiagInfo c)"
  by (simp add: reflect_connDiagInfo_def encode_connDiagInfo_def)

lemma sequence_sum_map:
  "(\<And>x. x \<in> set xs \<Longrightarrow> f x = Inr (g x)) \<Longrightarrow> sequence_sum (map f xs) = Inr (map g xs)"
  by (induction xs) simp_all

lemma encode_val_slice:
  assumes "\<And>x. encode_val (f x) = Inr (g x)"
  shows "encode_val (reflect_slice f xs) = Inr (encode_slice g xs)"
proof (cases xs)
  case None
  then show ?thesis by (simp add: reflect_slice_def encode_slice_def)
next
  case (Some ys)
  have "sequence_sum (map encode_val (map f ys)) = Inr (map g ys)"
    using sequence_sum_map [of ys "\<lambda>x. encode_val (f x)" g] assms by (simp add: comp_def)
  then show ?thesis using Some by (simp add: reflect_slice_def encode_slice_def)
qed

lemma encode_val_diagInfo: "encode_val (reflect_diagInfo di) = Inr (encode_diagInfo di)"
  by (simp add: reflect_diagInfo_def encode_diagInfo_def
      encode_val_slice [of reflect_connDiagInfo encode_connDiagInfo, OF encode_val_conn]
      encode_val_slice [of VString quote])

text \<open>
  Storing a parsed value into a struct, as \<^verbatim>\<open>json.Unmarshal\<close> does. A key selects the
  field of the same name, or else the first field equal to it up to the case of ASCII
  letters; other keys are skipped. \<open>null\<close> leaves a string or a number as it is and
  makes a slice nil; a value of the wrong kind, or a number that is not a 64-bit integer,
  is an \<^verbatim>\<open>UnmarshalTypeError\<close>. Two simplifications concern inputs that the encoder
  never writes: only ASCII letters are folded, and a key that occurs twice stores its
  array into fresh elements.
\<close>

datatype decode_error = io_EOF | SyntaxError | UnmarshalTypeError

definition to_lower :: "char \<Rightarrow> char" where
  "to_lower c = (if 65 \<le> (of_char c :: nat) \<and> (of_char c :: nat) \<le> 90
                 then char_of ((of_char c :: nat) + 32) else c)"

definition eq_fold :: "string \<Rightarrow> string \<Rightarrow> bool" where
  "eq_fold a b = (map to_lower a = map to_lower b)"

definition match_field :: "string list \<Rightarrow> string \<Rightarrow> string option" where
  "match_field names key = (case find ((=) key) names of Some f \<Rightarrow> Some f
     | None \<Rightarrow> find (eq_fold key) names)"

definition unmarshal_string :: "json \<Rightarrow> string \<Rightarrow> decode_error + string" where
  "unmarshal_string j cur = (case j of JNull \<Rightarrow> Inr cur | JString s \<Rightarrow> Inr s
     | _ \<Rightarrow> Inl UnmarshalTypeError)"

definition unmarshal_int64 :: "json \<Rightarrow> Duration \<Rightarrow> decode_error + Duration" where
  "unmarshal_int64 j cur = (case j of JNull \<Rightarrow> Inr cur
     | JNumber lit \<Rightarrow> (case ParseInt64 lit of None \<Rightarrow> Inl UnmarshalTypeError | Some w \<Rightarrow> Inr w)
     | _ \<Rightarrow> Inl UnmarshalTypeError)"

fun unmarshal_elems :: "(json \<Rightarrow> decode_error + 'a) \<Rightarrow> json list \<Rightarrow> decode_error + 'a list" where
  "unmarshal_elems f [] = Inr []"
| "unmarshal_elems f (j # js) = (case f j of Inl e \<Rightarrow> Inl e
     | Inr x \<Rightarrow> (case unmarshal_elems f js of Inl e \<Rightarrow> Inl e | Inr xs \<Rightarrow> Inr (x # xs)))"

definition unmarshal_slice :: "(json \<Rightarrow> decode_error + 'a) \<Rightarrow> json \<Rightarrow> decode_error + 'a list option" where
  "unmarshal_slice f j = (case j of JNull \<Rightarrow> Inr None
     | JArray js \<Rightarrow> (case unmarshal_elems f js of Inl e \<Rightarrow> Inl e | Inr xs \<Rightarrow> Inr (Some xs))
     | _ \<Rightarrow> Inl UnmarshalTypeError)"

fun unmarshal_members ::
  "(string \<Rightarrow> json \<Rightarrow> 'a \<Rightarrow> decode_error + 'a) \<Rightarrow> (string \<times> json) list \<Rightarrow> 'a \<Rightarrow> decode_error + 'a" where
  "unmarshal_members set_field [] x = Inr x"
| "unmarshal_members set_field ((k, v) # ms) x = (case set_field k v x of Inl e \<Rightarrow> Inl e
     | Inr x' \<Rightarrow> unmarshal_members set_field ms x')"

definition conn_set_field :: "string \<Rightarrow> json \<Rightarrow> connDiagInfo \<Rightarrow> decode_error + connDiagInfo" where
  "conn_set_field k v c = (case match_field [''Latency'', ''ID''] k of None \<Rightarrow> Inr c
     | Some f \<Rightarrow>
         if f = ''Latency'' then
           (case unmarshal_int64 v (Latency c) of Inl e \<Rightarrow> Inl e
            | Inr x \<Rightarrow> Inr (c\<lparr>Latency := x\<rparr>))
         else
           (case unmarshal_string v (ConnID c) of Inl e \<Rightarrow> Inl e
            | Inr x \<Rightarrow> Inr (c\<lparr>ConnID := x\<rparr>)))"

definition unmarshal_connDiagInfo :: "json \<Rightarrow> decode_error + connDiagInfo" where
  "unmarshal_connDiagInfo j = (case j of JNull \<Rightarrow> Inr \<lparr>Latency = 0, ConnID = []\<rparr>
     | JObject ms \<Rightarrow> unmarshal_members conn_set_field ms \<lparr>Latency = 0, ConnID = []\<rparr>
     | _ \<Rightarrow> Inl UnmarshalTypeError)"

definition diag_set_field :: "string \<Rightarrow> json \<Rightarrow> diagInfo \<Rightarrow> decode_error + diagInfo" where
  "diag_set_field k v d =
     (case match_field [''ID'', ''Connections'', ''Keys'', ''LifeSpan'', ''CodeVersion''] k of
        None \<Rightarrow> Inr d
      | Some f \<Rightarrow>
          if f = ''ID'' then
            (case unmarshal_string v (ID d) of Inl e \<Rightarrow> Inl e | Inr x \<Rightarrow> Inr (d\<lparr>ID := x\<rparr>))
          else if f = ''Connections'' then
            (case unmarshal_slice unmarshal_connDiagInfo v of Inl e \<Rightarrow> Inl e
             | Inr x \<Rightarrow> Inr (d\<lparr>Connections := x\<rparr>))
          else if f = ''Keys'' then
            (case unmarshal_slice (\<lambda>j. unmarshal_string j []) v of Inl e \<Rightarrow> Inl e
             | Inr x \<Rightarrow> Inr (d\<lparr>Keys := x\<rparr>))
          else if f = ''LifeSpan'' then
            (case unmarshal_int64 v (LifeSpan d) of Inl e \<Rightarrow> Inl e
             | Inr x \<Rightarrow> Inr (d\<lparr>LifeSpan := x\<rparr>))
          else
            (case unmarshal_string v (CodeVersion d) of Inl e \<Rightarrow> Inl e
             | Inr x \<Rightarrow> Inr (d\<lparr>CodeVersion := x\<rparr>)))"

definition new_diagInfo :: diagInfo where
  "new_diagInfo = \<lparr>ID = [], Connections = None, Keys = None, LifeSpan = 0, CodeVersion = []\<rparr>"

definition unmarshal_diagInfo :: "json \<Rightarrow> decode_error + diagInfo" where
  "unmarshal_diagInfo j = (case j of JNull \<Rightarrow> Inr new_diagInfo
     | JObject ms \<Rightarrow> unmarshal_members diag_set_field ms new_diagInfo
     | _ \<Rightarrow> Inl UnmarshalTypeError)"

text \<open>
  One call of \<^verbatim>\<open>dec.Decode(di)\<close> on a fresh \<^verbatim>\<open>new(diagInfo)\<close> (diag.go, lines 124 and
  125), the decoder standing at \<open>buf\<close>: \<^verbatim>\<open>io.EOF\<close> when only white space is left,
  otherwise the next value stored into the zero snapshot, with the rest of the stream.
  \<open>decode_loop\<close> is the loop of lines 123 to 133: it appends snapshots to \<open>out\<close>
  until \<^verbatim>\<open>Decode\<close> returns an error (the end of the stream or any other, which the
  source only logs).
\<close>

definition Decode :: "bytes \<Rightarrow> decode_error + diagInfo \<times> bytes" where
  "Decode buf = (case skip_ws buf of [] \<Rightarrow> Inl io_EOF
     | _ # _ \<Rightarrow> (case parse_value buf of None \<Rightarrow> Inl SyntaxError
         | Some (j, rest) \<Rightarrow> (case unmarshal_diagInfo j of Inl e \<Rightarrow> Inl e
             | Inr di \<Rightarrow> Inr (di, rest))))"

lemma Decode_shorter: "Decode buf = Inr (di, rest) \<Longrightarrow> length rest < length buf"
  by (auto simp: Decode_def split: list.splits option.splits sum.splits
      dest: parse_value_shorter)

function decode_loop :: "bytes \<Rightarrow> diagInfo list \<Rightarrow> diagInfo list" where
  "decode_loop buf out = (case Decode buf of Inl err \<Rightarrow> out
     | Inr (di, rest) \<Rightarrow> decode_loop rest (out @ [di]))"
  by pat_completeness auto
termination
  by (relation "measure (\<lambda>(buf, out). length buf)") (auto dest: Decode_shorter)

declare decode_loop.simps [simp del]

section \<open>The diagnostics service (diag.go)\<close>

text \<open>
  A Go \<^verbatim>\<open>error\<close> is modelled by its text, which is all a caller can observe of an
  error made by \<^verbatim>\<open>errors.New\<close> or \<^verbatim>\<open>fmt.Errorf\<close>. A function that can panic
  returns an \<open>outcome\<close>. A Go function with the results \<^verbatim>\<open>(x, err)\<close> returns a pair
  of two options, so that the tests \<^verbatim>\<open>err != nil\<close> and \<^verbatim>\<open>x == nil\<close> of the source
  are case distinctions of the model.
\<close>

datatype error = errors_New string

fun Error :: "error \<Rightarrow> string" where
  "Error (errors_New s) = s"

datatype 'a outcome = Panic error | Returns 'a

text \<open>
  A \<^verbatim>\<open>time.Time\<close> is a number of nanoseconds; \<open>time_Sub\<close> is \<^verbatim>\<open>Time.Sub\<close>,
  which saturates at the ends of the 64-bit range.
\<close>

type_synonym Time = int

definition time_Sub :: "Time \<Rightarrow> Time \<Rightarrow> Duration" where
  "time_Sub t u =
     (if t - u < - (2 ^ 63) then word_of_int (- (2 ^ 63))
      else if 2 ^ 63 \<le> t - u then word_of_int (2 ^ 63 - 1)
      else word_of_int (t - u))"

text \<open>
  What the service reads of a \<^verbatim>\<open>peer.Peer\<close>: the printed form of its id
  (\<^verbatim>\<open>p.ID.Pretty()\<close>) and its latency (\<^verbatim>\<open>p.GetLatency()\<close>). \<open>Message\<close> is the
  protocol message generated from the protocol buffer description, with an optional
  request id and an optional payload, and its two getters; \<open>NetMessage\<close> is the
  envelope \<^verbatim>\<open>msg.NetMessage\<close> with its sender and its bytes, either of which may be nil.
\<close>

record Peer =
  Pretty :: string
  GetLatency :: Duration

record Message =
  DiagID :: "string option"
  Data :: "bytes option"

definition GetDiagID :: "Message \<Rightarrow> string" where
  "GetDiagID m = (case DiagID m of None \<Rightarrow> [] | Some s \<Rightarrow> s)"

definition GetData :: "Message option \<Rightarrow> bytes option" where
  "GetData m = (case m of None \<Rightarrow> None | Some x \<Rightarrow> Data x)"

record NetMessage =
  msg_Peer :: "Peer option"
  msg_Data :: "bytes option"

definition bytes_of :: "bytes option \<Rightarrow> bytes" where
  "bytes_of b = (case b of None \<Rightarrow> [] | Some x \<Rightarrow> x)"

text \<open>
  The collaborators of the service are parameters. \<open>'w\<close> is the state of the world
  outside the node (network, clock, random source); every call that can depend on it or
  change it takes the world and returns the new one. \<open>GetPeerList\<close> is \<open>None\<close> when
  the network is not a \<^verbatim>\<open>*net.IpfsNetwork\<close> (the type assertion of line 69 fails).
  \<open>SendRequest\<close> is \<^verbatim>\<open>d.sender.SendRequest\<close>; the context it receives is
  represented by the timeout it was made with. \<open>FromObject\<close> is
  \<^verbatim>\<open>msg.FromObject\<close>, \<open>proto_Unmarshal\<close> is \<^verbatim>\<open>proto.Unmarshal\<close> into a fresh
  \<open>Message\<close>, \<open>time_Now\<close> reads the clock and \<open>rand_Read\<close> returns the bytes that
  \<^verbatim>\<open>rand.Read\<close> delivers. Logging is left out. The model is sequential: the mutex
  \<^verbatim>\<open>diagLock\<close> and calls that run at the same time are not represented.
\<close>

record 'w collaborators =
  GetPeerList :: "('w \<Rightarrow> Peer list \<times> 'w) option"
  SendRequest :: "'w \<Rightarrow> Duration \<Rightarrow> NetMessage \<Rightarrow> (error + NetMessage option) \<times> 'w"
  FromObject :: "Peer \<Rightarrow> Message \<Rightarrow> error + NetMessage"
  proto_Unmarshal :: "bytes \<Rightarrow> error + Message"
  time_Now :: "'w \<Rightarrow> Time \<times> 'w"
  rand_Read :: "'w \<Rightarrow> bytes \<times> 'w"

text \<open>
  The state of a node (lines 25 to 33): its own peer, the ledger \<^verbatim>\<open>diagMap\<close> from
  request ids to the time of insertion, and the time of its start.
\<close>

record Diagnostics =
  self :: Peer
  diagMap :: "string \<rightharpoonup> Time"
  birth :: Time

text \<open>
  \<^verbatim>\<open>diagInfo.Marshal\<close> (lines 58 to 65) panics when \<^verbatim>\<open>json.Marshal\<close> returns an error.
\<close>

definition json_Marshal :: "diagInfo \<Rightarrow> error + bytes" where
  "json_Marshal di = (case encode_val (reflect_diagInfo di) of
     Inl msg \<Rightarrow> Inl (errors_New msg) | Inr b \<Rightarrow> Inr b)"

definition Marshal :: "diagInfo \<Rightarrow> bytes outcome" where
  "Marshal di = (case json_Marshal di of Inl err \<Rightarrow> Panic err | Inr b \<Rightarrow> Returns b)"

text \<open>
  \<^verbatim>\<open>getPeers\<close> (lines 67 to 76), \<^verbatim>\<open>getDiagInfo\<close> (lines 78 to 89: the clock is
  read before the peer list; appending to the nil slice leaves it nil when there are no
  peers), \<^verbatim>\<open>newID\<close> (lines 91 to 95: four zero bytes overwritten by what
  \<^verbatim>\<open>rand.Read\<close> delivers, its error being ignored) and \<^verbatim>\<open>newMessage\<close> (lines 147
  to 151).
\<close>

definition getPeers :: "'w collaborators \<Rightarrow> 'w \<Rightarrow> Peer list \<times> 'w" where
  "getPeers c w = (case GetPeerList c of None \<Rightarrow> ([], w) | Some f \<Rightarrow> f w)"

definition getDiagInfo :: "'w collaborators \<Rightarrow> Diagnostics \<Rightarrow> 'w \<Rightarrow> diagInfo \<times> 'w" where
  "getDiagInfo c d w =
     (let (now, w1) = time_Now c w;
          (peers, w2) = getPeers c w1
      in (\<lparr>ID = Pretty (self d),
           Connections = (if peers = [] then None
              else Some (map (\<lambda>p. \<lparr>Latency = GetLatency p, ConnID = Pretty p\<rparr>) peers)),
           Keys = None,
           LifeSpan = time_Sub now (birth d),
           CodeVersion = ''github.com/jbenet/go-ipfs''\<rparr>, w2))"

definition newID :: "'w collaborators \<Rightarrow> 'w \<Rightarrow> string \<times> 'w" where
  "newID c w = (let (r, w1) = rand_Read c w in (take 4 (r @ replicate 4 (CHR 0x00)), w1))"

definition newMessage :: "string \<Rightarrow> Message" where
  "newMessage diagID = \<lparr>DiagID = Some diagID, Data = None\<rparr>"

text \<open>
  \<^verbatim>\<open>sendRequest\<close> (lines 153 to 179) and \<^verbatim>\<open>getDiagnosticFromPeer\<close> (lines 139 to
  145). The two readings of the clock serve the logged round-trip time only.
\<close>

definition sendRequest ::
  "'w collaborators \<Rightarrow> 'w \<Rightarrow> Duration \<Rightarrow> Peer \<Rightarrow> Message \<Rightarrow> (Message option \<times> error option) \<times> 'w" where
  "sendRequest c w ctx p pmes =
     (case FromObject c p pmes of
        Inl err \<Rightarrow> ((None, Some err), w)
      | Inr mes \<Rightarrow>
          (let (start, w1) = time_Now c w in
           case SendRequest c w1 ctx mes of
             (Inl err, w2) \<Rightarrow> ((None, Some err), w2)
           | (Inr None, w2) \<Rightarrow> ((None, Some (errors_New ''no response to request'')), w2)
           | (Inr (Some rmes), w2) \<Rightarrow>
               (let (now, w3) = time_Now c w2 in
                case proto_Unmarshal c (bytes_of (msg_Data rmes)) of
                  Inl err \<Rightarrow> ((None, Some err), w3)
                | Inr rpmes \<Rightarrow> ((Some rpmes, None), w3))))"

definition getDiagnosticFromPeer ::
  "'w collaborators \<Rightarrow> 'w \<Rightarrow> Duration \<Rightarrow> Peer \<Rightarrow> Message \<Rightarrow> (bytes option \<times> error option) \<times> 'w" where
  "getDiagnosticFromPeer c w ctx p mes =
     (case sendRequest c w ctx p mes of
        ((rpmes, Some err), w1) \<Rightarrow> ((None, Some err), w1)
      | ((rpmes, None), w1) \<Rightarrow> ((GetData rpmes, None), w1))"

text \<open>
  \<^verbatim>\<open>GetDiagnostic\<close> (lines 97 to 136). \<open>GetDiagnostic_loop\<close> is the loop over the
  peers of lines 115 to 134.
\<close>

fun GetDiagnostic_loop ::
  "'w collaborators \<Rightarrow> Duration \<Rightarrow> Message \<Rightarrow> Peer list \<Rightarrow> diagInfo list \<Rightarrow> 'w \<Rightarrow> diagInfo list \<times> 'w" where
  "GetDiagnostic_loop c ctx pmes [] out w = (out, w)"
| "GetDiagnostic_loop c ctx pmes (p # ps) out w =
     (case getDiagnosticFromPeer c w ctx p pmes of
        ((data, Some err), w1) \<Rightarrow> GetDiagnostic_loop c ctx pmes ps out w1
      | ((data, None), w1) \<Rightarrow>
          GetDiagnostic_loop c ctx pmes ps (decode_loop (bytes_of data) out) w1)"

definition GetDiagnostic ::
  "'w collaborators \<Rightarrow> Diagnostics \<Rightarrow> 'w \<Rightarrow> Duration
     \<Rightarrow> (diagInfo list \<times> error option) \<times> Diagnostics \<times> 'w" where
  "GetDiagnostic c d w timeout =
     (let ctx = timeout;
          (diagID, w1) = newID c w;
          (now, w2) = time_Now c w1;
          d1 = d\<lparr>diagMap := (diagMap d)(diagID \<mapsto> now)\<rparr>;
          (peers, w3) = getPeers c w2;
          (di, w4) = getDiagInfo c d1 w3;
          pmes = newMessage diagID;
          (out, w5) = GetDiagnostic_loop c ctx pmes peers [di] w4
      in ((out, None), d1, w5))"

text \<open>
  \<^verbatim>\<open>handleDiagnostic\<close> (lines 182 to 214), with the loop of lines 199 to 210.
  \<^verbatim>\<open>bytes.Buffer.Write\<close> never returns an error, so the branch of lines 206 to 209 has
  no counterpart. The timeout of the fan-out is ten seconds, in nanoseconds.
\<close>

fun handleDiagnostic_loop ::
  "'w collaborators \<Rightarrow> Duration \<Rightarrow> Message \<Rightarrow> Peer list \<Rightarrow> bytes \<Rightarrow> 'w \<Rightarrow> bytes \<times> 'w" where
  "handleDiagnostic_loop c ctx pmes [] buf w = (buf, w)"
| "handleDiagnostic_loop c ctx pmes (p # ps) buf w =
     (case getDiagnosticFromPeer c w ctx p pmes of
        ((out, Some err), w1) \<Rightarrow> handleDiagnostic_loop c ctx pmes ps buf w1
      | ((out, None), w1) \<Rightarrow> handleDiagnostic_loop c ctx pmes ps (buf @ bytes_of out) w1)"

definition handleDiagnostic ::
  "'w collaborators \<Rightarrow> Diagnostics \<Rightarrow> 'w \<Rightarrow> Peer \<Rightarrow> Message
     \<Rightarrow> (Message option \<times> error option) outcome \<times> Diagnostics \<times> 'w" where
  "handleDiagnostic c d w p pmes =
     (let resp = newMessage (GetDiagID pmes) in
      case diagMap d (GetDiagID pmes) of
        Some t \<Rightarrow> (Returns (Some resp, None), d, w)
      | None \<Rightarrow>
          (let (now, w1) = time_Now c w;
               d1 = d\<lparr>diagMap := (diagMap d)(GetDiagID pmes \<mapsto> now)\<rparr>;
               (di, w2) = getDiagInfo c d1 w1
           in case Marshal di of
                Panic e \<Rightarrow> (Panic e, d1, w2)
              | Returns b \<Rightarrow>
                  (let ctx = 10 * 1000000000;
                       (peers, w3) = getPeers c w2;
                       (buf, w4) = handleDiagnostic_loop c ctx pmes peers b w3
                   in (Returns (Some (resp\<lparr>Data := Some buf\<rparr>), None), d1, w4))))"

text \<open>
  \<^verbatim>\<open>HandleMessage\<close> (lines 216 to 256). Its context argument is not used by the source.
\<close>

definition HandleMessage ::
  "'w collaborators \<Rightarrow> Diagnostics \<Rightarrow> 'w \<Rightarrow> NetMessage
     \<Rightarrow> (NetMessage option \<times> error option) outcome \<times> Diagnostics \<times> 'w" where
  "HandleMessage c d w mes =
     (case msg_Data mes of
        None \<Rightarrow> (Returns (None, Some (errors_New ''message did not include Data'')), d, w)
      | Some mData \<Rightarrow>
     (case msg_Peer mes of
        None \<Rightarrow> (Returns (None, Some (errors_New ''message did not include a Peer'')), d, w)
      | Some mPeer \<Rightarrow>
     (case proto_Unmarshal c mData of
        Inl err \<Rightarrow>
          (Returns (None, Some (errors_New
             (''Failed to decode protobuf message: '' @ Error err @ [CHR 0x0A]))), d, w)
      | Inr pmes \<Rightarrow>
     (case handleDiagnostic c d w mPeer pmes of
        (Panic e, d1, w1) \<Rightarrow> (Panic e, d1, w1)
      | (Returns (rpmes, Some err), d1, w1) \<Rightarrow> (Returns (None, Some err), d1, w1)
      | (Returns (None, None), d1, w1) \<Rightarrow> (Returns (None, None), d1, w1)
      | (Returns (Some rpmes, None), d1, w1) \<Rightarrow>
          (case FromObject c mPeer rpmes of
             Inl err \<Rightarrow>
               (Returns (None, Some (errors_New
                  (''Failed to encode protobuf message: '' @ Error err @ [CHR 0x0A]))), d1, w1)
           | Inr rmes \<Rightarrow> (Returns (Some rmes, None), d1, w1))))))"

section \<open>Properties of the service\<close>

text \<open>
  A node is driven through its two exported operations; \<open>run\<close> performs a list of
  such calls, threading the state of the node and of the world.
\<close>

datatype call = Call_GetDiagnostic Duration | Call_HandleMessage NetMessage

fun run :: "'w collaborators \<Rightarrow> call list \<Rightarrow> Diagnostics \<times> 'w \<Rightarrow> Diagnostics \<times> 'w" where
  "run c [] s = s"
| "run c (x # xs) (d, w) =
     run c xs (case x of
        Call_GetDiagnostic timeout \<Rightarrow> snd (GetDiagnostic c d w timeout)
      | Call_HandleMessage mes \<Rightarrow> snd (HandleMessage c d w mes))"

lemma decode_loop_prefix: "\<exists>extra. decode_loop buf out = out @ extra"
proof (induction buf out rule: decode_loop.induct)
  case (1 buf out)
  show ?case
  proof (cases "Decode buf")
    case (Inl e)
    then show ?thesis by (subst decode_loop.simps) simp
  next
    case (Inr x)
    obtain di rest where x: "x = (di, rest)" by (cases x)
    from "1.IH" [OF Inr x [symmetric]] obtain extra
      where "decode_loop rest (out @ [di]) = (out @ [di]) @ extra" by blast
    then show ?thesis using Inr x by (subst decode_loop.simps) simp
  qed
qed

lemma GetDiagnostic_loop_prefix:
  "\<exists>extra. fst (GetDiagnostic_loop c ctx pmes ps out w) = out @ extra"
proof (induction ps arbitrary: out w)
  case Nil
  show ?case by simp
next
  case (Cons p ps)
  obtain data e w1 where g: "getDiagnosticFromPeer c w ctx p pmes = ((data, e), w1)"
    by (metis prod.exhaust)
  show ?case
  proof (cases e)
    case None
    obtain x where x: "decode_loop (bytes_of data) out = out @ x"
      using decode_loop_prefix by blast
    obtain y where "fst (GetDiagnostic_loop c ctx pmes ps (out @ x) w1) = (out @ x) @ y"
      using Cons.IH by blast
    then show ?thesis using g None x by simp
  next
    case (Some err)
    then show ?thesis using g Cons.IH [of out w1] by simp
  qed
qed

lemma handleDiagnostic_loop_prefix:
  "\<exists>extra. fst (handleDiagnostic_loop c ctx pmes ps buf w) = buf @ extra"
proof (induction ps arbitrary: buf w)
  case Nil
  show ?case by simp
next
  case (Cons p ps)
  obtain data e w1 where g: "getDiagnosticFromPeer c w ctx p pmes = ((data, e), w1)"
    by (metis prod.exhaust)
  show ?case
  proof (cases e)
    case None
    obtain y where "fst (handleDiagnostic_loop c ctx pmes ps (buf @ bytes_of data) w1)
        = (buf @ bytes_of data) @ y"
      using Cons.IH by blast
    then show ?thesis using g None by simp
  next
    case (Some err)
    then show ?thesis using g Cons.IH [of buf w1] by simp
  qed
qed

lemma handleDiagnostic_found:
  "diagMap d (GetDiagID pmes) = Some t \<Longrightarrow>
   handleDiagnostic c d w p pmes = (Returns (Some (newMessage (GetDiagID pmes)), None), d, w)"
  by (simp add: handleDiagnostic_def)

lemma handleDiagnostic_fresh:
  assumes "diagMap d (GetDiagID pmes) = None"
  shows "\<exists>res w1. handleDiagnostic c d w p pmes =
      (res, d\<lparr>diagMap := (diagMap d)(GetDiagID pmes \<mapsto> fst (time_Now c w))\<rparr>, w1)
    \<and> res \<noteq> Returns (Some (newMessage (GetDiagID pmes)), None)"
  using assms
  by (auto simp: handleDiagnostic_def Let_def newMessage_def split: prod.splits outcome.splits)

lemma handleDiagnostic_dom:
  "dom (diagMap d) \<subseteq> dom (diagMap (fst (snd (handleDiagnostic c d w p pmes))))"
proof (cases "diagMap d (GetDiagID pmes)")
  case None
  from handleDiagnostic_fresh [OF this, of c w p] show ?thesis by auto
next
  case (Some t)
  from handleDiagnostic_found [OF this, of c w p] show ?thesis by simp
qed

lemma HandleMessage_state:
  "snd (HandleMessage c d w mes) = (d, w)
   \<or> (\<exists>p pmes. snd (HandleMessage c d w mes) = snd (handleDiagnostic c d w p pmes))"
proof (cases "msg_Data mes")
  case None
  then show ?thesis by (simp add: HandleMessage_def)
next
  case (Some mData)
  note data = this
  show ?thesis
  proof (cases "msg_Peer mes")
    case None
    then show ?thesis using data by (simp add: HandleMessage_def)
  next
    case (Some mPeer)
    note peer = this
    show ?thesis
    proof (cases "proto_Unmarshal c mData")
      case (Inl err)
      then show ?thesis using data peer by (simp add: HandleMessage_def)
    next
      case (Inr pmes)
      have "snd (HandleMessage c d w mes) = snd (handleDiagnostic c d w mPeer pmes)"
        using data peer Inr
        by (simp add: HandleMessage_def
            split: prod.splits outcome.splits option.splits sum.splits)
      then show ?thesis by blast
    qed
  qed
qed

lemma HandleMessage_dom:
  "dom (diagMap d) \<subseteq> dom (diagMap (fst (snd (HandleMessage c d w mes))))"
  using HandleMessage_state [of c d w mes] handleDiagnostic_dom [of d c w]
  by (metis fst_conv order_refl)

lemma GetDiagnostic_diagMap:
  "diagMap (fst (snd (GetDiagnostic c d w timeout)))
     = (diagMap d)(fst (newID c w) \<mapsto> fst (time_Now c (snd (newID c w))))"
  by (simp add: GetDiagnostic_def Let_def split: prod.splits)

lemma GetDiagnostic_dom:
  "dom (diagMap d) \<subseteq> dom (diagMap (fst (snd (GetDiagnostic c d w timeout))))"
  by (auto simp: GetDiagnostic_diagMap)

lemma run_dom: "dom (diagMap (fst s)) \<subseteq> dom (diagMap (fst (run c xs s)))"
proof (induction xs arbitrary: s)
  case Nil
  show ?case by simp
next
  case (Cons x xs)
  obtain d w where s: "s = (d, w)" by (cases s)
  show ?case
  proof (cases x)
    case (Call_GetDiagnostic timeout)
    have "dom (diagMap d) \<subseteq> dom (diagMap (fst (snd (GetDiagnostic c d w timeout))))"
      by (rule GetDiagnostic_dom)
    also have "\<dots> \<subseteq> dom (diagMap (fst (run c xs (snd (GetDiagnostic c d w timeout)))))"
      by (rule Cons.IH)
    finally show ?thesis using s Call_GetDiagnostic by simp
  next
    case (Call_HandleMessage mes)
    have "dom (diagMap d) \<subseteq> dom (diagMap (fst (snd (HandleMessage c d w mes))))"
      by (rule HandleMessage_dom)
    also have "\<dots> \<subseteq> dom (diagMap (fst (run c xs (snd (HandleMessage c d w mes)))))"
      by (rule Cons.IH)
    finally show ?thesis using s Call_HandleMessage by simp
  qed
qed

subsection \<open>A concrete node and network\<close>

text \<open>
  The examples run on a network whose world is the list of the requests sent so far:
  \<open>logging_net\<close> has one peer, which never answers; its random source always
  delivers \<open>abcd\<close> and its clock always shows 9. \<open>failing_net\<close> differs in its
  transport, which fails with an error.
  \<open>example_node\<close> has the id \<open>abcd\<close> in its ledger, \<open>fresh_node\<close> has an empty
  ledger.
\<close>

definition example_peer :: Peer where
  "example_peer = \<lparr>Pretty = ''QmPeerB'', GetLatency = 7\<rparr>"

definition example_node :: Diagnostics where
  "example_node = \<lparr>self = \<lparr>Pretty = ''QmSelfA'', GetLatency = 0\<rparr>,
                    diagMap = [''abcd'' \<mapsto> 5], birth = 0\<rparr>"

definition logging_net :: "(NetMessage list) collaborators" where
  "logging_net = \<lparr>
     GetPeerList = Some (\<lambda>w. ([example_peer], w)),
     SendRequest = (\<lambda>w ctx mes. (Inr None, w @ [mes])),
     FromObject = (\<lambda>p m. Inr \<lparr>msg_Peer = Some p, msg_Data = Some (GetDiagID m)\<rparr>),
     proto_Unmarshal = (\<lambda>b. if b = [] then Inl (errors_New ''proto: required field not set'')
                             else Inr \<lparr>DiagID = Some b, Data = None\<rparr>),
     time_Now = (\<lambda>w. (9, w)),
     rand_Read = (\<lambda>w. (''abcd'', w))\<rparr>"

definition failing_net :: "(NetMessage list) collaborators" where
  "failing_net = logging_net\<lparr>
     SendRequest := (\<lambda>w ctx mes. (Inl (errors_New ''no response to request''), w @ [mes]))\<rparr>"

subsection \<open>The ledger of request ids\<close>

text \<open>
  Claim C2. For every inbound request whose request id is already in the ledger of the
  node, \<open>handleDiagnostic\<close> returns a response with the same id and no payload, and
  neither the node nor the world changes: no snapshot is built (the clock and the peer
  list are not read) and no request is sent, whatever the collaborators are.
\<close>
theorem handleDiagnostic_duplicate:
  "diagMap d (GetDiagID pmes) = Some t \<Longrightarrow>
   handleDiagnostic c d w p pmes
     = (Returns (Some \<lparr>DiagID = Some (GetDiagID pmes), Data = None\<rparr>, None), d, w)"
  by (simp add: handleDiagnostic_def newMessage_def)

theorem handleDiagnostic_duplicate_witness:
  "diagMap example_node (GetDiagID (newMessage ''abcd'')) = Some 5
   \<and> handleDiagnostic logging_net example_node [] example_peer (newMessage ''abcd'')
     = (Returns (Some \<lparr>DiagID = Some ''abcd'', Data = None\<rparr>, None), example_node, [])"
proof -
  have h: "diagMap example_node (GetDiagID (newMessage ''abcd'')) = Some 5"
    by (simp add: example_node_def GetDiagID_def newMessage_def)
  show ?thesis
    using h handleDiagnostic_duplicate [OF h, of logging_net "[]" example_peer]
    by (simp add: GetDiagID_def newMessage_def)
qed

text \<open>
  Claim C1, as the code has it. An inbound claim of a request id that is not in the
  ledger inserts it, with the time read from the clock, and does not take the short
  way. Once an id is in the ledger, every inbound claim of it made after any list of
  calls of the two operations reports it as present: the short response, with the node
  and the world unchanged. No list of calls removes an id from the ledger. The
  originator inserts the id it drew without looking it up: the entry is written, also
  over an entry that is already there.
\<close>
theorem ledger_claims:
  "(diagMap d (GetDiagID pmes) = None \<longrightarrow>
      (\<exists>res w1. handleDiagnostic c d w p pmes
          = (res, d\<lparr>diagMap := (diagMap d)(GetDiagID pmes \<mapsto> fst (time_Now c w))\<rparr>, w1)
        \<and> res \<noteq> Returns (Some (newMessage (GetDiagID pmes)), None)))
   \<and> (GetDiagID pmes \<in> dom (diagMap d) \<longrightarrow>
      (\<forall>calls. handleDiagnostic c (fst (run c calls (d, w))) (snd (run c calls (d, w))) p pmes
          = (Returns (Some (newMessage (GetDiagID pmes)), None), run c calls (d, w))))
   \<and> (\<forall>calls. dom (diagMap d) \<subseteq> dom (diagMap (fst (run c calls (d, w)))))
   \<and> diagMap (fst (snd (GetDiagnostic c d w timeout)))
        = (diagMap d)(fst (newID c w) \<mapsto> fst (time_Now c (snd (newID c w))))"
proof (intro conjI impI allI)
  assume "diagMap d (GetDiagID pmes) = None"
  then show "\<exists>res w1. handleDiagnostic c d w p pmes
          = (res, d\<lparr>diagMap := (diagMap d)(GetDiagID pmes \<mapsto> fst (time_Now c w))\<rparr>, w1)
        \<and> res \<noteq> Returns (Some (newMessage (GetDiagID pmes)), None)"
    by (rule handleDiagnostic_fresh)
next
  fix calls
  assume a: "GetDiagID pmes \<in> dom (diagMap d)"
  obtain d1 w1 where r: "run c calls (d, w) = (d1, w1)" by (cases "run c calls (d, w)")
  have "dom (diagMap d) \<subseteq> dom (diagMap d1)"
    using run_dom [of "(d, w)" c calls] r by simp
  with a obtain t where "diagMap d1 (GetDiagID pmes) = Some t" by auto
  from handleDiagnostic_found [OF this, of c w1 p]
  show "handleDiagnostic c (fst (run c calls (d, w))) (snd (run c calls (d, w))) p pmes
          = (Returns (Some (newMessage (GetDiagID pmes)), None), run c calls (d, w))"
    using r by simp
next
  fix calls
  show "dom (diagMap d) \<subseteq> dom (diagMap (fst (run c calls (d, w))))"
    using run_dom [of "(d, w)" c calls] by simp
next
  show "diagMap (fst (snd (GetDiagnostic c d w timeout)))
        = (diagMap d)(fst (newID c w) \<mapsto> fst (time_Now c (snd (newID c w))))"
    by (rule GetDiagnostic_diagMap)
qed

definition fresh_node :: Diagnostics where
  "fresh_node = \<lparr>self = \<lparr>Pretty = ''QmSelfA'', GetLatency = 0\<rparr>, diagMap = Map.empty, birth = 0\<rparr>"

theorem ledger_claims_witness:
  "(diagMap fresh_node (GetDiagID (newMessage ''wxyz'')) = None
    \<and> (\<exists>res w1. handleDiagnostic logging_net fresh_node [] example_peer (newMessage ''wxyz'')
          = (res, fresh_node\<lparr>diagMap := [''wxyz'' \<mapsto> 9]\<rparr>, w1)
        \<and> res \<noteq> Returns (Some (newMessage ''wxyz''), None)))
   \<and> (GetDiagID (newMessage ''abcd'') \<in> dom (diagMap example_node)
    \<and> handleDiagnostic logging_net
          (fst (run logging_net [Call_GetDiagnostic 1000] (example_node, [])))
          (snd (run logging_net [Call_GetDiagnostic 1000] (example_node, [])))
          example_peer (newMessage ''abcd'')
        = (Returns (Some (newMessage ''abcd''), None),
           run logging_net [Call_GetDiagnostic 1000] (example_node, [])))"
proof -
  have h1: "diagMap fresh_node (GetDiagID (newMessage ''wxyz'')) = None"
    by (simp add: fresh_node_def)
  have h2: "GetDiagID (newMessage ''abcd'') \<in> dom (diagMap example_node)"
    by (simp add: example_node_def GetDiagID_def newMessage_def)
  have t: "fst (time_Now logging_net []) = 9" by (simp add: logging_net_def)
  have g: "GetDiagID (newMessage ''wxyz'') = ''wxyz''" "GetDiagID (newMessage ''abcd'') = ''abcd''"
    by (simp_all add: GetDiagID_def newMessage_def)
  have e: "diagMap fresh_node = Map.empty" by (simp add: fresh_node_def)
  from ledger_claims [of fresh_node "newMessage ''wxyz''" logging_net "[]" example_peer 1000]
  have a: "\<exists>res w1. handleDiagnostic logging_net fresh_node [] example_peer (newMessage ''wxyz'')
          = (res, fresh_node\<lparr>diagMap := [''wxyz'' \<mapsto> 9]\<rparr>, w1)
        \<and> res \<noteq> Returns (Some (newMessage ''wxyz''), None)"
    using h1 by (simp add: g t e)
  note L = ledger_claims [of example_node "newMessage ''abcd''" logging_net "[]" example_peer 1000]
  from L h2 have "\<forall>calls. handleDiagnostic logging_net
          (fst (run logging_net calls (example_node, [])))
          (snd (run logging_net calls (example_node, [])))
          example_peer (newMessage ''abcd'')
        = (Returns (Some (newMessage (GetDiagID (newMessage ''abcd''))), None),
           run logging_net calls (example_node, []))"
    by blast
  then have b: "handleDiagnostic logging_net
          (fst (run logging_net [Call_GetDiagnostic 1000] (example_node, [])))
          (snd (run logging_net [Call_GetDiagnostic 1000] (example_node, [])))
          example_peer (newMessage ''abcd'')
        = (Returns (Some (newMessage ''abcd''), None),
           run logging_net [Call_GetDiagnostic 1000] (example_node, []))"
    by (simp only: g)
  from h1 h2 a b show ?thesis by blast
qed

text \<open>
  The originator on \<open>example_node\<close>, whose ledger holds \<open>abcd\<close> since time 5, drawing
  \<open>abcd\<close> again: the id is not reported as present, its entry now carries the time
  9, and the request was sent to the peer.
\<close>

lemma example_gather:
  "GetDiagnostic logging_net example_node [] 1000 =
     (([\<lparr>ID = ''QmSelfA'',
         Connections = Some [\<lparr>Latency = 7, ConnID = ''QmPeerB''\<rparr>],
         Keys = None, LifeSpan = 9, CodeVersion = ''github.com/jbenet/go-ipfs''\<rparr>], None),
      example_node\<lparr>diagMap := [''abcd'' \<mapsto> 9]\<rparr>,
      [\<lparr>msg_Peer = Some example_peer, msg_Data = Some ''abcd''\<rparr>])"
  by (simp add: GetDiagnostic_def logging_net_def example_node_def example_peer_def newID_def
      getPeers_def getDiagInfo_def newMessage_def getDiagnosticFromPeer_def sendRequest_def
      GetDiagID_def time_Sub_def Let_def)

theorem ledger_originator_counterexample:
  "diagMap example_node ''abcd'' = Some 5
   \<and> fst (newID logging_net []) = ''abcd''
   \<and> diagMap (fst (snd (GetDiagnostic logging_net example_node [] 1000))) ''abcd'' = Some 9
   \<and> snd (snd (GetDiagnostic logging_net example_node [] 1000))
       = [\<lparr>msg_Peer = Some example_peer, msg_Data = Some ''abcd''\<rparr>]"
  by (simp add: example_gather) (simp add: example_node_def newID_def logging_net_def)

lemma Marshal_Returns: "Marshal di = Returns (encode_diagInfo di)"
  by (simp add: Marshal_def json_Marshal_def encode_val_diagInfo)

subsection \<open>Errors of a request\<close>

text \<open>
  Claim C8, as the code has it. When the request has been put in an envelope,
  \<open>sendRequest\<close> returns the error of the transport as it is when the transport
  fails, the error with the text \<open>no response to request\<close> when the transport returns
  no message, and the error of the decoder as it is when the bytes of the response do
  not decode.
\<close>
theorem sendRequest_errors:
  assumes "FromObject c p pmes = Inr mes"
  shows "(fst (SendRequest c (snd (time_Now c w)) ctx mes) = Inl err \<longrightarrow>
            fst (sendRequest c w ctx p pmes) = (None, Some err))
     \<and> (fst (SendRequest c (snd (time_Now c w)) ctx mes) = Inr None \<longrightarrow>
            fst (sendRequest c w ctx p pmes) = (None, Some (errors_New ''no response to request'')))
     \<and> (fst (SendRequest c (snd (time_Now c w)) ctx mes) = Inr (Some rmes)
          \<and> proto_Unmarshal c (bytes_of (msg_Data rmes)) = Inl err \<longrightarrow>
            fst (sendRequest c w ctx p pmes) = (None, Some err))"
  using assms
  by (auto simp: sendRequest_def Let_def split: prod.splits sum.splits option.splits)

theorem sendRequest_errors_witness:
  "FromObject logging_net example_peer (newMessage ''abcd'')
     = Inr \<lparr>msg_Peer = Some example_peer, msg_Data = Some ''abcd''\<rparr>
   \<and> fst (SendRequest logging_net (snd (time_Now logging_net [])) 1000
        \<lparr>msg_Peer = Some example_peer, msg_Data = Some ''abcd''\<rparr>) = Inr None
   \<and> fst (sendRequest logging_net [] 1000 example_peer (newMessage ''abcd''))
      = (None, Some (errors_New ''no response to request''))"
proof -
  have h: "FromObject logging_net example_peer (newMessage ''abcd'')
     = Inr \<lparr>msg_Peer = Some example_peer, msg_Data = Some ''abcd''\<rparr>"
    by (simp add: logging_net_def GetDiagID_def newMessage_def)
  have n: "fst (SendRequest logging_net (snd (time_Now logging_net [])) 1000
        \<lparr>msg_Peer = Some example_peer, msg_Data = Some ''abcd''\<rparr>) = Inr None"
    by (simp add: logging_net_def)
  from sendRequest_errors [OF h, of "[]" 1000] n h show ?thesis by blast
qed

text \<open>
  The errors carry no mark of their kind: a transport that fails with the text of the
  empty-response error gives the caller the same result as a transport that returns no
  message.
\<close>

theorem sendRequest_kinds_counterexample:
  "fst (SendRequest failing_net (snd (time_Now failing_net [])) 1000
        \<lparr>msg_Peer = Some example_peer, msg_Data = Some ''abcd''\<rparr>)
     = Inl (errors_New ''no response to request'')
   \<and> fst (SendRequest logging_net (snd (time_Now logging_net [])) 1000
        \<lparr>msg_Peer = Some example_peer, msg_Data = Some ''abcd''\<rparr>) = Inr None
   \<and> sendRequest failing_net [] 1000 example_peer (newMessage ''abcd'')
     = sendRequest logging_net [] 1000 example_peer (newMessage ''abcd'')"
  by (simp add: sendRequest_def failing_net_def logging_net_def GetDiagID_def newMessage_def)

subsection \<open>Inbound messages that do not decode\<close>

text \<open>
  Claim C10. For every inbound message that has a payload which
  \<open>proto_Unmarshal\<close> rejects, \<open>HandleMessage\<close> returns no message and a non-nil
  error, and the node, its ledger included, and the world are unchanged.
\<close>
theorem HandleMessage_undecodable:
  assumes "msg_Data mes = Some mData" and "proto_Unmarshal c mData = Inl err"
  shows "\<exists>e. HandleMessage c d w mes = (Returns (None, Some e), d, w)"
  using assms by (simp add: HandleMessage_def split: option.splits)

theorem HandleMessage_undecodable_witness:
  "msg_Data \<lparr>msg_Peer = Some example_peer, msg_Data = Some []\<rparr> = Some []
   \<and> proto_Unmarshal logging_net [] = Inl (errors_New ''proto: required field not set'')
   \<and> (\<exists>e. HandleMessage logging_net example_node []
          \<lparr>msg_Peer = Some example_peer, msg_Data = Some []\<rparr>
        = (Returns (None, Some e), example_node, []))"
proof -
  have h1: "msg_Data \<lparr>msg_Peer = Some example_peer, msg_Data = Some []\<rparr> = Some []" by simp
  have h2: "proto_Unmarshal logging_net [] = Inl (errors_New ''proto: required field not set'')"
    by (simp add: logging_net_def)
  from HandleMessage_undecodable [OF h1 h2, of example_node "[]"] h1 h2 show ?thesis by blast
qed

section \<open>The decoder reads back what the encoder wrote\<close>

subsection \<open>Numbers\<close>

lemma digit_char [simp]: "(n::nat) < 10 \<Longrightarrow> of_char (char_of (48 + n)) = (48 + n :: nat)"
  by (simp add: of_char_of)

lemma is_digit_char: "(n::nat) < 10 \<Longrightarrow> is_digit (char_of (48 + n))"
  by (simp add: is_digit_def)

lemma format_digits_digits: "list_all is_digit (format_digits n)"
proof (induction n rule: format_digits.induct)
  case (1 n)
  show ?case
  proof (cases "n < 10")
    case True
    then show ?thesis by (subst format_digits.simps) (simp add: is_digit_char)
  next
    case False
    have "n mod 10 < 10" by simp
    then have "is_digit (char_of (48 + n mod 10))" by (rule is_digit_char)
    then show ?thesis using False "1.IH"
      by (subst format_digits.simps) simp
  qed
qed

lemma format_digits_nonempty: "format_digits n \<noteq> []"
  by (subst format_digits.simps) simp

lemma digits_val_snoc: "digits_val (ds @ [c]) = digits_val ds * 10 + (of_char c - 48)"
  by (simp add: digits_val_def)

lemma digits_val_format: "digits_val (format_digits n) = n"
proof (induction n rule: format_digits.induct)
  case (1 n)
  show ?case
  proof (cases "n < 10")
    case True
    then show ?thesis by (subst format_digits.simps) (simp add: digits_val_def)
  next
    case False
    then have "digits_val (format_digits (n div 10)) = n div 10" using "1.IH" by simp
    then show ?thesis using False
      by (subst format_digits.simps) (simp add: digits_val_snoc)
  qed
qed

lemma format_digits_hd: "hd (format_digits n) = CHR ''0'' \<Longrightarrow> n = 0"
proof (induction n rule: format_digits.induct)
  case (1 n)
  show ?case
  proof (cases "n < 10")
    case True
    with "1.prems" have "char_of (48 + n) = CHR ''0''"
      by (subst (asm) format_digits.simps) simp
    then show ?thesis using True by simp
  next
    case False
    with "1.prems" have "hd (format_digits (n div 10)) = CHR ''0''"
      by (subst (asm) format_digits.simps) (simp add: format_digits_nonempty)
    with "1.IH" False have "n div 10 = 0" by simp
    with False show ?thesis by simp
  qed
qed

lemma format_digits_zero: "format_digits 0 = ''0''"
  by (subst format_digits.simps) simp

definition num_end :: "char \<Rightarrow> bool" where
  "num_end c = (\<not> is_digit c \<and> c \<noteq> CHR ''.'' \<and> c \<noteq> CHR ''e'' \<and> c \<noteq> CHR ''E'')"

lemma scan_frac_end: "num_end c \<Longrightarrow> scan_frac lit (c # rest) = Some (lit, c # rest)"
  by (simp add: scan_frac_def scan_exp_def num_end_def)

lemma takeWhile_digits:
  "list_all is_digit ds \<Longrightarrow> \<not> is_digit c \<Longrightarrow> takeWhile is_digit (ds @ c # rest) = ds"
  by (induction ds) simp_all

lemma dropWhile_digits:
  "list_all is_digit ds \<Longrightarrow> \<not> is_digit c \<Longrightarrow> dropWhile is_digit (ds @ c # rest) = c # rest"
  by (induction ds) simp_all

lemma is_digit_not_minus: "is_digit d \<Longrightarrow> d \<noteq> CHR ''-''"
  by (auto simp: is_digit_def)

lemma parse_number_unsigned:
  assumes "is_digit d" and "list_all is_digit ds" and "d = CHR ''0'' \<longrightarrow> ds = []"
    and "num_end c"
  shows "parse_number (d # ds @ c # rest) = Some (d # ds, c # rest)"
proof -
  have nd: "\<not> is_digit c" using assms(4) by (simp add: num_end_def)
  show ?thesis
  proof (cases "d = CHR ''0''")
    case True
    with assms(3) have "ds = []" by simp
    with True show ?thesis
      using scan_frac_end [OF assms(4), of "''0''" rest]
      by (simp add: parse_number_def)
  next
    case False
    then show ?thesis
      using is_digit_not_minus [OF assms(1)] assms(1)
        takeWhile_digits [OF assms(2) nd, of rest] dropWhile_digits [OF assms(2) nd, of rest]
        scan_frac_end [OF assms(4), of "d # ds" rest]
      by (simp add: parse_number_def)
  qed
qed

lemma parse_number_negative:
  assumes "is_digit d" and "list_all is_digit ds" and "d = CHR ''0'' \<longrightarrow> ds = []"
    and "num_end c"
  shows "parse_number (CHR ''-'' # d # ds @ c # rest) = Some (CHR ''-'' # d # ds, c # rest)"
proof -
  have nd: "\<not> is_digit c" using assms(4) by (simp add: num_end_def)
  show ?thesis
  proof (cases "d = CHR ''0''")
    case True
    with assms(3) have "ds = []" by simp
    with True show ?thesis
      using scan_frac_end [OF assms(4), of "''-0''" rest]
      by (simp add: parse_number_def)
  next
    case False
    then show ?thesis
      using assms(1)
        takeWhile_digits [OF assms(2) nd, of rest] dropWhile_digits [OF assms(2) nd, of rest]
        scan_frac_end [OF assms(4), of "CHR ''-'' # d # ds" rest]
      by (simp add: parse_number_def)
  qed
qed

lemma format_digits_shape:
  obtains d ds where "format_digits n = d # ds" "is_digit d" "list_all is_digit ds"
    "d = CHR ''0'' \<longrightarrow> ds = []"
proof -
  obtain d ds where e: "format_digits n = d # ds"
    using format_digits_nonempty [of n] by (cases "format_digits n") auto
  have a: "is_digit d" "list_all is_digit ds"
    using format_digits_digits [of n] e by simp_all
  have "d = CHR ''0'' \<longrightarrow> ds = []"
  proof
    assume "d = CHR ''0''"
    then have "n = 0" using format_digits_hd [of n] e by simp
    then show "ds = []" using e by (simp add: format_digits_zero)
  qed
  with e a show ?thesis by (rule that)
qed

lemma parse_number_FormatInt:
  assumes "num_end c"
  shows "parse_number (FormatInt i @ c # rest) = Some (FormatInt i, c # rest)"
proof (cases "i < 0")
  case True
  obtain d ds where s: "format_digits (nat (- i)) = d # ds" "is_digit d" "list_all is_digit ds"
    "d = CHR ''0'' \<longrightarrow> ds = []" by (rule format_digits_shape)
  show ?thesis using True parse_number_negative [OF s(2-4) assms, of rest]
    by (simp add: FormatInt_def s(1))
next
  case False
  obtain d ds where s: "format_digits (nat i) = d # ds" "is_digit d" "list_all is_digit ds"
    "d = CHR ''0'' \<longrightarrow> ds = []" by (rule format_digits_shape)
  show ?thesis using False parse_number_unsigned [OF s(2-4) assms, of rest]
    by (simp add: FormatInt_def s(1))
qed

lemma FormatInt_hd:
  "\<exists>d ds. FormatInt i = d # ds \<and> (d = CHR ''-'' \<or> is_digit d)"
proof (cases "i < 0")
  case True
  then show ?thesis by (simp add: FormatInt_def)
next
  case False
  obtain d ds where s: "format_digits (nat i) = d # ds" "is_digit d" "list_all is_digit ds"
    "d = CHR ''0'' \<longrightarrow> ds = []" by (rule format_digits_shape)
  then show ?thesis using False by (simp add: FormatInt_def)
qed

lemma ParseInt64_FormatInt: "ParseInt64 (FormatInt (sint w)) = Some w"
proof (cases "sint w < 0")
  case True
  have r: "- (2 ^ 63) \<le> sint w" using sint_ge [of w] by simp
  have v: "- int (digits_val (format_digits (nat (- sint w)))) = sint w"
    using True by (simp add: digits_val_format)
  show ?thesis using True r
    by (simp add: ParseInt64_def FormatInt_def format_digits_nonempty format_digits_digits
        digits_val_format Let_def)
next
  case False
  obtain d ds where s: "format_digits (nat (sint w)) = d # ds" "is_digit d"
    "list_all is_digit ds" "d = CHR ''0'' \<longrightarrow> ds = []" by (rule format_digits_shape)
  have r: "sint w < 2 ^ 63" using sint_lt [of w] by simp
  have dv: "digits_val (d # ds) = nat (sint w)" using digits_val_format [of "nat (sint w)"] s(1) by simp
  show ?thesis using False r is_digit_not_minus [OF s(2)] s(2,3)
    by (simp add: ParseInt64_def FormatInt_def s(1) dv Let_def)
qed

subsection \<open>Values, members and elements\<close>

lemma skip_ws_nonspace: "\<not> is_space c \<Longrightarrow> skip_ws (c # cs) = c # cs"
  by (simp add: skip_ws_def)

lemma parse_value_string:
  "parse_value (quote s @ rest) = Some (JString (coerce_utf8 s), rest)"
proof -
  have sk: "skip_ws (CHR 0x22 # string_enc s @ CHR 0x22 # rest)
      = CHR 0x22 # string_enc s @ CHR 0x22 # rest"
    by (rule skip_ws_nonspace) (simp add: is_space_def)
  show ?thesis
    by (subst parse_value.simps) (simp add: quote_def sk parse_string_enc_coerce)
qed

lemma parse_value_number:
  assumes "num_end c"
  shows "parse_value (FormatInt i @ c # rest) = Some (JNumber (FormatInt i), c # rest)"
proof -
  obtain d ds where e: "FormatInt i = d # ds" and d: "d = CHR ''-'' \<or> is_digit d"
    using FormatInt_hd [of i] by blast
  have ns: "\<not> is_space d" using d by (auto simp: is_space_def is_digit_def)
  have nb: "d \<noteq> CHR ''{''" "d \<noteq> CHR ''[''" "d \<noteq> CHR 0x22"
    using d by (auto simp: is_digit_def)
  have pn: "parse_number (d # ds @ c # rest) = Some (d # ds, c # rest)"
    using parse_number_FormatInt [OF assms, of i rest] e by simp
  show ?thesis
    using d nb
    by (subst parse_value.simps) (simp add: e skip_ws_nonspace [OF ns] pn)
qed

lemma parse_value_null: "parse_value (''null'' @ rest) = Some (JNull, rest)"
  by (subst parse_value.simps)
    (simp add: skip_ws_def is_space_def is_digit_def parse_literal_def)

lemma parse_members_more:
  assumes "parse_string cs = Some (k, CHR '':'' # r1)"
    and "parse_value r1 = Some (v, CHR '','' # r3)"
  shows "parse_members (CHR 0x22 # cs) = map_option (apfst ((#) (k, v))) (parse_members r3)"
proof -
  have l: "length (CHR '','' # r3) < length r1" by (rule parse_value_shorter [OF assms(2)])
  show ?thesis
    using l
    by (subst parse_members.simps) (simp add: skip_ws_def is_space_def assms)
qed

lemma parse_members_last:
  assumes "parse_string cs = Some (k, CHR '':'' # r1)"
    and "parse_value r1 = Some (v, CHR ''}'' # r3)"
  shows "parse_members (CHR 0x22 # cs) = Some ([(k, v)], r3)"
proof -
  have l: "length (CHR ''}'' # r3) < length r1" by (rule parse_value_shorter [OF assms(2)])
  show ?thesis
    using l
    by (subst parse_members.simps) (simp add: skip_ws_def is_space_def assms)
qed

lemma parse_string_key:
  "utf8_valid k \<Longrightarrow> parse_string (string_enc k @ CHR 0x22 # CHR '':'' # r1) = Some (k, CHR '':'' # r1)"
  by (rule parse_string_enc)

lemma parse_members_field_more:
  assumes "utf8_valid k" and "parse_value (v @ CHR '','' # r3) = Some (j, CHR '','' # r3)"
  shows "parse_members (field k v @ CHR '','' # r3)
    = map_option (apfst ((#) (k, j))) (parse_members r3)"
  using parse_members_more [OF parse_string_key [OF assms(1)] assms(2)]
  by (simp add: field_def quote_def)

lemma parse_members_field_last:
  assumes "utf8_valid k" and "parse_value (v @ CHR ''}'' # r3) = Some (j, CHR ''}'' # r3)"
  shows "parse_members (field k v @ CHR ''}'' # r3) = Some ([(k, j)], r3)"
  using parse_members_last [OF parse_string_key [OF assms(1)] assms(2)]
  by (simp add: field_def quote_def)

lemma parse_value_object:
  assumes "parse_members (CHR 0x22 # cs) = Some (ms, rest)"
  shows "parse_value (CHR ''{'' # CHR 0x22 # cs) = Some (JObject ms, rest)"
  by (subst parse_value.simps) (simp add: skip_ws_def is_space_def assms)

lemma parse_elems_more:
  assumes "parse_value s = Some (v, CHR '','' # r)"
  shows "parse_elems s = map_option (apfst ((#) v)) (parse_elems r)"
proof -
  have l: "length (CHR '','' # r) < length s" by (rule parse_value_shorter [OF assms])
  show ?thesis using l
    by (subst parse_elems.simps) (simp add: skip_ws_def is_space_def assms)
qed

lemma parse_elems_last:
  assumes "parse_value s = Some (v, CHR '']'' # r)"
  shows "parse_elems s = Some ([v], r)"
proof -
  have l: "length (CHR '']'' # r) < length s" by (rule parse_value_shorter [OF assms])
  show ?thesis using l
    by (subst parse_elems.simps) (simp add: skip_ws_def is_space_def assms)
qed

lemma parse_elems_commas:
  assumes "\<And>x r. x \<in> set (y # ys) \<Longrightarrow> parse_value (f x @ r) = Some (g x, r)"
  shows "parse_elems (commas (map f (y # ys)) @ CHR '']'' # rest) = Some (map g (y # ys), rest)"
  using assms
proof (induction ys arbitrary: y)
  case Nil
  have "parse_value (f y @ CHR '']'' # rest) = Some (g y, CHR '']'' # rest)"
    using Nil by simp
  from parse_elems_last [OF this] show ?case by simp
next
  case (Cons z zs)
  have ih: "parse_elems (commas (map f (z # zs)) @ CHR '']'' # rest) = Some (map g (z # zs), rest)"
    using Cons.IH [of z] Cons.prems by simp
  have "parse_value (f y @ CHR '','' # commas (map f (z # zs)) @ CHR '']'' # rest)
      = Some (g y, CHR '','' # commas (map f (z # zs)) @ CHR '']'' # rest)"
    using Cons.prems by simp
  from parse_elems_more [OF this] show ?case using ih by simp
qed

lemma parse_value_array:
  assumes "\<And>x r. x \<in> set xs \<Longrightarrow> parse_value (f x @ r) = Some (g x, r)"
    and "\<And>x. x \<in> set xs \<Longrightarrow> \<exists>c cs. f x = c # cs \<and> \<not> is_space c \<and> c \<noteq> CHR '']''"
  shows "parse_value (encode_slice f (Some xs) @ rest) = Some (JArray (map g xs), rest)"
proof (cases xs)
  case Nil
  then show ?thesis
    by (subst parse_value.simps) (simp add: encode_slice_def skip_ws_def is_space_def)
next
  case (Cons y ys)
  obtain c cs where fy: "f y = c # cs" and c: "\<not> is_space c" "c \<noteq> CHR '']''"
    using assms(2) [of y] Cons by auto
  define B where "B = commas (map f (y # ys))"
  have pe: "parse_elems (B @ CHR '']'' # rest) = Some (map g (y # ys), rest)"
    unfolding B_def by (rule parse_elems_commas) (use assms(1) Cons in simp)
  obtain t where ct: "B = c # t"
    unfolding B_def using fy by (cases ys) simp_all
  have e0: "encode_slice f (Some xs) = CHR ''['' # B @ [CHR '']'']"
    by (simp add: encode_slice_def Cons B_def)
  have enc: "encode_slice f (Some xs) @ rest = CHR ''['' # c # t @ CHR '']'' # rest"
    by (simp add: e0 ct)
  have pe': "parse_elems (c # t @ CHR '']'' # rest) = Some (map g xs, rest)"
    using pe by (simp add: ct Cons)
  have sk: "skip_ws (c # t @ CHR '']'' # rest) = c # t @ CHR '']'' # rest"
    by (rule skip_ws_nonspace [OF c(1)])
  have sk0: "skip_ws (CHR ''['' # c # t @ CHR '']'' # rest) = CHR ''['' # c # t @ CHR '']'' # rest"
    by (rule skip_ws_nonspace) (simp add: is_space_def)
  show ?thesis
    unfolding enc using c(2)
    by (subst parse_value.simps) (simp add: sk sk0 pe')
qed

subsection \<open>Snapshots\<close>

text \<open>
  \<open>conn_json\<close> and \<open>diag_json\<close> are the values that the decoder reads from the
  encodings of a connection and of a snapshot. \<open>strings_valid\<close> holds of a snapshot
  all of whose strings are valid UTF-8.
\<close>

definition conn_json :: "connDiagInfo \<Rightarrow> json" where
  "conn_json c = JObject [(''Latency'', JNumber (FormatInt (sint (Latency c)))),
                          (''ID'', JString (coerce_utf8 (ConnID c)))]"

definition slice_json :: "('a \<Rightarrow> json) \<Rightarrow> 'a list option \<Rightarrow> json" where
  "slice_json g xs = (case xs of None \<Rightarrow> JNull | Some ys \<Rightarrow> JArray (map g ys))"

definition diag_json :: "diagInfo \<Rightarrow> json" where
  "diag_json di = JObject
     [(''ID'', JString (coerce_utf8 (ID di))),
      (''Connections'', slice_json conn_json (Connections di)),
      (''Keys'', slice_json (\<lambda>k. JString (coerce_utf8 k)) (Keys di)),
      (''LifeSpan'', JNumber (FormatInt (sint (LifeSpan di)))),
      (''CodeVersion'', JString (coerce_utf8 (CodeVersion di)))]"

definition slice_list :: "'a list option \<Rightarrow> 'a list" where
  "slice_list xs = (case xs of None \<Rightarrow> [] | Some ys \<Rightarrow> ys)"

definition strings_valid :: "diagInfo \<Rightarrow> bool" where
  "strings_valid di =
     (utf8_valid (ID di)
      \<and> list_all (\<lambda>c. utf8_valid (ConnID c)) (slice_list (Connections di))
      \<and> list_all utf8_valid (slice_list (Keys di))
      \<and> utf8_valid (CodeVersion di))"

lemma utf8_valid_ascii: "list_all (\<lambda>c. (of_char c :: nat) < 0x80) s \<Longrightarrow> utf8_valid s"
  by (induction s) (simp_all add: DecodeRune_def RuneError_def)

lemma num_end_sep: "num_end (CHR '','')" "num_end (CHR ''}'')"
  by (simp_all add: num_end_def is_digit_def)

lemma parse_value_object_field:
  assumes "parse_members (field k v @ t) = Some (ms, rest)"
  shows "parse_value (CHR ''{'' # field k v @ t) = Some (JObject ms, rest)"
proof -
  have e: "field k v @ t = CHR 0x22 # (string_enc k @ CHR 0x22 # CHR '':'' # v @ t)"
    by (simp add: field_def quote_def)
  show ?thesis
    unfolding e by (rule parse_value_object) (use assms e in simp)
qed

lemma parse_value_conn:
  "parse_value (encode_connDiagInfo c @ rest) = Some (conn_json c, rest)"
proof -
  define T2 where "T2 = field ''ID'' (quote (ConnID c)) @ CHR ''}'' # rest"
  define T1 where "T1 = field ''Latency'' (FormatInt (sint (Latency c))) @ CHR '','' # T2"
  have e: "encode_connDiagInfo c @ rest = CHR ''{'' # T1"
    by (simp add: encode_connDiagInfo_def T1_def T2_def)
  have k: "utf8_valid ''ID''" "utf8_valid ''Latency''"
    by (rule utf8_valid_ascii, simp)+
  have m2: "parse_members T2 = Some ([(''ID'', JString (coerce_utf8 (ConnID c)))], rest)"
    unfolding T2_def
    by (rule parse_members_field_last [OF k(1) parse_value_string])
  have m1: "parse_members T1 = Some ([(''Latency'', JNumber (FormatInt (sint (Latency c)))),
      (''ID'', JString (coerce_utf8 (ConnID c)))], rest)"
    unfolding T1_def
    by (simp add: parse_members_field_more [OF k(2) parse_value_number [OF num_end_sep(1)]] m2)
  show ?thesis
    unfolding e T1_def conn_json_def
    by (rule parse_value_object_field) (use m1 in \<open>simp add: T1_def\<close>)
qed

lemma encode_conn_hd:
  "\<exists>ch cs. encode_connDiagInfo c = ch # cs \<and> \<not> is_space ch \<and> ch \<noteq> CHR '']''"
  by (simp add: encode_connDiagInfo_def is_space_def)

lemma quote_hd: "\<exists>ch cs. quote s = ch # cs \<and> \<not> is_space ch \<and> ch \<noteq> CHR '']''"
  by (simp add: quote_def is_space_def)

lemma parse_value_slice:
  assumes "\<And>x r. x \<in> set (slice_list xs) \<Longrightarrow> parse_value (f x @ r) = Some (g x, r)"
    and "\<And>x. x \<in> set (slice_list xs)
           \<Longrightarrow> \<exists>c cs. f x = c # cs \<and> \<not> is_space c \<and> c \<noteq> CHR '']''"
  shows "parse_value (encode_slice f xs @ rest) = Some (slice_json g xs, rest)"
proof (cases xs)
  case None
  then show ?thesis using parse_value_null [of rest]
    by (simp add: encode_slice_def slice_json_def)
next
  case (Some ys)
  have "parse_value (encode_slice f (Some ys) @ rest) = Some (JArray (map g ys), rest)"
    by (rule parse_value_array) (use assms Some in \<open>simp_all add: slice_list_def\<close>)
  then show ?thesis using Some by (simp add: slice_json_def)
qed

lemma parse_value_diag:
  "parse_value (encode_diagInfo di @ rest) = Some (diag_json di, rest)"
proof -
  define T5 where "T5 = field ''CodeVersion'' (quote (CodeVersion di)) @ CHR ''}'' # rest"
  define T4 where "T4 = field ''LifeSpan'' (FormatInt (sint (LifeSpan di))) @ CHR '','' # T5"
  define T3 where "T3 = field ''Keys'' (encode_slice quote (Keys di)) @ CHR '','' # T4"
  define T2 where "T2 = field ''Connections''
      (encode_slice encode_connDiagInfo (Connections di)) @ CHR '','' # T3"
  define T1 where "T1 = field ''ID'' (quote (ID di)) @ CHR '','' # T2"
  have e: "encode_diagInfo di @ rest = CHR ''{'' # T1"
    by (simp add: encode_diagInfo_def T1_def T2_def T3_def T4_def T5_def)
  have k: "utf8_valid ''ID''" "utf8_valid ''Connections''" "utf8_valid ''Keys''"
    "utf8_valid ''LifeSpan''" "utf8_valid ''CodeVersion''"
    by (rule utf8_valid_ascii, simp)+
  have m5: "parse_members T5 = Some ([(''CodeVersion'', JString (coerce_utf8 (CodeVersion di)))], rest)"
    unfolding T5_def
    by (rule parse_members_field_last [OF k(5) parse_value_string])
  have m4: "parse_members T4 = Some ([(''LifeSpan'', JNumber (FormatInt (sint (LifeSpan di)))),
      (''CodeVersion'', JString (coerce_utf8 (CodeVersion di)))], rest)"
    unfolding T4_def
    by (simp add: parse_members_field_more [OF k(4) parse_value_number [OF num_end_sep(1)]] m5)
  have pk: "parse_value (encode_slice quote (Keys di) @ CHR '','' # T4)
      = Some (slice_json (\<lambda>k. JString (coerce_utf8 k)) (Keys di), CHR '','' # T4)"
    by (rule parse_value_slice) (simp add: parse_value_string, rule quote_hd)
  have m3: "parse_members T3 = Some ([(''Keys'', slice_json (\<lambda>k. JString (coerce_utf8 k)) (Keys di)),
      (''LifeSpan'', JNumber (FormatInt (sint (LifeSpan di)))),
      (''CodeVersion'', JString (coerce_utf8 (CodeVersion di)))], rest)"
    unfolding T3_def
    by (simp add: parse_members_field_more [OF k(3) pk] m4)
  have pc: "parse_value (encode_slice encode_connDiagInfo (Connections di) @ CHR '','' # T3)
      = Some (slice_json conn_json (Connections di), CHR '','' # T3)"
    by (rule parse_value_slice) (simp add: parse_value_conn, rule encode_conn_hd)
  have m2: "parse_members T2 = Some ([(''Connections'', slice_json conn_json (Connections di)),
      (''Keys'', slice_json (\<lambda>k. JString (coerce_utf8 k)) (Keys di)),
      (''LifeSpan'', JNumber (FormatInt (sint (LifeSpan di)))),
      (''CodeVersion'', JString (coerce_utf8 (CodeVersion di)))], rest)"
    unfolding T2_def
    by (simp add: parse_members_field_more [OF k(2) pc] m3)
  have ps: "parse_value (quote (ID di) @ CHR '','' # T2)
      = Some (JString (coerce_utf8 (ID di)), CHR '','' # T2)"
    by (rule parse_value_string)
  have m1: "parse_members T1 = Some ([(''ID'', JString (coerce_utf8 (ID di))),
      (''Connections'', slice_json conn_json (Connections di)),
      (''Keys'', slice_json (\<lambda>k. JString (coerce_utf8 k)) (Keys di)),
      (''LifeSpan'', JNumber (FormatInt (sint (LifeSpan di)))),
      (''CodeVersion'', JString (coerce_utf8 (CodeVersion di)))], rest)"
    unfolding T1_def
    by (simp add: parse_members_field_more [OF k(1) ps] m2)
  show ?thesis
    unfolding e T1_def diag_json_def
    by (rule parse_value_object_field) (use m1 in \<open>simp add: T1_def\<close>)
qed

text \<open>
  \<open>coerce_diagInfo\<close> is a snapshot with every string coerced to valid UTF-8: what
  decoding returns for the encoding of any snapshot (lemma \<open>Decode_encode\<close>).
\<close>

definition coerce_connDiagInfo :: "connDiagInfo \<Rightarrow> connDiagInfo" where
  "coerce_connDiagInfo c = c\<lparr>ConnID := coerce_utf8 (ConnID c)\<rparr>"

definition coerce_diagInfo :: "diagInfo \<Rightarrow> diagInfo" where
  "coerce_diagInfo di = di\<lparr>
     ID := coerce_utf8 (ID di),
     Connections := map_option (map coerce_connDiagInfo) (Connections di),
     Keys := map_option (map coerce_utf8) (Keys di),
     CodeVersion := coerce_utf8 (CodeVersion di)\<rparr>"

lemma unmarshal_conn_json: "unmarshal_connDiagInfo (conn_json c) = Inr (coerce_connDiagInfo c)"
  by (cases c)
    (simp add: unmarshal_connDiagInfo_def conn_json_def conn_set_field_def match_field_def
      unmarshal_int64_def unmarshal_string_def ParseInt64_FormatInt coerce_connDiagInfo_def)

lemma unmarshal_elems_map:
  "(\<And>x. f (g x) = Inr (h x)) \<Longrightarrow> unmarshal_elems f (map g xs) = Inr (map h xs)"
  by (induction xs) simp_all

lemma unmarshal_slice_json:
  "(\<And>x. f (g x) = Inr (h x)) \<Longrightarrow>
   unmarshal_slice f (slice_json g xs) = Inr (map_option (map h) xs)"
  by (cases xs) (simp_all add: unmarshal_slice_def slice_json_def unmarshal_elems_map)

lemma unmarshal_conn_slice:
  "unmarshal_slice unmarshal_connDiagInfo (slice_json conn_json cs)
     = Inr (map_option (map coerce_connDiagInfo) cs)"
  by (rule unmarshal_slice_json) (rule unmarshal_conn_json)

lemma unmarshal_keys_slice:
  "unmarshal_slice (\<lambda>j. unmarshal_string j []) (slice_json (\<lambda>k. JString (coerce_utf8 k)) ks)
     = Inr (map_option (map coerce_utf8) ks)"
  by (rule unmarshal_slice_json) (simp add: unmarshal_string_def)

lemma unmarshal_string_JString: "unmarshal_string (JString s) cur = Inr s"
  by (simp add: unmarshal_string_def)

lemma unmarshal_int64_JNumber:
  "unmarshal_int64 (JNumber (FormatInt (sint w))) cur = Inr w"
  by (simp add: unmarshal_int64_def ParseInt64_FormatInt)

lemma unmarshal_diag_json: "unmarshal_diagInfo (diag_json di) = Inr (coerce_diagInfo di)"
  by (cases di)
    (simp add: unmarshal_diagInfo_def diag_json_def diag_set_field_def match_field_def
      unmarshal_int64_JNumber unmarshal_string_JString coerce_diagInfo_def
      new_diagInfo_def unmarshal_conn_slice unmarshal_keys_slice)

lemma encode_diagInfo_Cons: "\<exists>t. encode_diagInfo di @ rest = CHR ''{'' # t"
  by (simp add: encode_diagInfo_def)

lemma Decode_encode: "Decode (encode_diagInfo di @ rest) = Inr (coerce_diagInfo di, rest)"
proof -
  obtain t where e: "encode_diagInfo di @ rest = CHR ''{'' # t"
    using encode_diagInfo_Cons by blast
  have sk: "skip_ws (CHR ''{'' # t) = CHR ''{'' # t"
    by (rule skip_ws_nonspace) (simp add: is_space_def)
  have pv: "parse_value (CHR ''{'' # t) = Some (diag_json di, rest)"
    using parse_value_diag [of di rest] e by simp
  show ?thesis
    unfolding e by (simp add: Decode_def sk pv unmarshal_diag_json)
qed

lemma Decode_Nil: "Decode [] = Inl io_EOF"
  by (simp add: Decode_def skip_ws_def)

lemma coerce_connDiagInfo_valid: "utf8_valid (ConnID c) \<Longrightarrow> coerce_connDiagInfo c = c"
  by (simp add: coerce_connDiagInfo_def coerce_utf8_valid)

lemma coerce_diagInfo_valid: "strings_valid di \<Longrightarrow> coerce_diagInfo di = di"
proof -
  assume v: "strings_valid di"
  have c: "map_option (map coerce_connDiagInfo) (Connections di) = Connections di"
  proof (cases "Connections di")
    case None
    then show ?thesis by simp
  next
    case (Some cs)
    with v have "list_all (\<lambda>c. utf8_valid (ConnID c)) cs"
      by (simp add: strings_valid_def slice_list_def)
    then have "map coerce_connDiagInfo cs = cs"
      by (induction cs) (simp_all add: coerce_connDiagInfo_valid)
    with Some show ?thesis by simp
  qed
  have k: "map_option (map coerce_utf8) (Keys di) = Keys di"
  proof (cases "Keys di")
    case None
    then show ?thesis by simp
  next
    case (Some ks)
    with v have "list_all utf8_valid ks"
      by (simp add: strings_valid_def slice_list_def)
    then have "map coerce_utf8 ks = ks"
      by (induction ks) (simp_all add: coerce_utf8_valid)
    with Some show ?thesis by simp
  qed
  from v have "utf8_valid (ID di)" "utf8_valid (CodeVersion di)"
    by (simp_all add: strings_valid_def)
  then show ?thesis
    by (simp add: coerce_diagInfo_def c k coerce_utf8_valid)
qed

lemma decode_loop_encode:
  "decode_loop (encode_diagInfo di @ rest) out = decode_loop rest (out @ [coerce_diagInfo di])"
  by (subst decode_loop.simps) (simp add: Decode_encode)

lemma decode_loop_Nil: "decode_loop [] out = out"
  by (subst decode_loop.simps) (simp add: Decode_Nil)

subsection \<open>Round trip and streams\<close>

definition example_snapshot :: diagInfo where
  "example_snapshot = \<lparr>ID = ''QmSelfA'',
     Connections = Some [\<lparr>Latency = 7, ConnID = ''QmPeerB''\<rparr>],
     Keys = None, LifeSpan = 9, CodeVersion = ''github.com/jbenet/go-ipfs''\<rparr>"

definition invalid_snapshot :: diagInfo where
  "invalid_snapshot = \<lparr>ID = [CHR 0xFF], Connections = None, Keys = None, LifeSpan = 0,
     CodeVersion = []\<rparr>"

lemma example_strings_valid:
  "utf8_valid ''QmSelfA''" "utf8_valid ''QmPeerB''" "utf8_valid ''github.com/jbenet/go-ipfs''"
  by (rule utf8_valid_ascii, simp)+

lemma example_snapshot_valid: "strings_valid example_snapshot"
  by (simp add: strings_valid_def example_snapshot_def slice_list_def example_strings_valid
      del: utf8_valid.simps)

lemma coerce_invalid_snapshot:
  "coerce_diagInfo invalid_snapshot = invalid_snapshot\<lparr>ID := [CHR 0xEF, CHR 0xBF, CHR 0xBD]\<rparr>"
  by (simp add: coerce_diagInfo_def invalid_snapshot_def DecodeRune_def EncodeRune_def
      RuneError_def)

lemma getDiagInfo_strings_valid:
  assumes "utf8_valid (Pretty (self d))"
    and "\<forall>w. list_all (\<lambda>p. utf8_valid (Pretty p)) (fst (getPeers c w))"
  shows "strings_valid (fst (getDiagInfo c d w))"
proof -
  obtain now w1 where t: "time_Now c w = (now, w1)" by (cases "time_Now c w")
  obtain peers w2 where p: "getPeers c w1 = (peers, w2)" by (cases "getPeers c w1")
  have "list_all (\<lambda>p. utf8_valid (Pretty p)) peers"
    using assms(2) p by (metis fst_conv)
  then have "list_all (\<lambda>c. utf8_valid (ConnID c))
      (map (\<lambda>p. \<lparr>Latency = GetLatency p, ConnID = Pretty p\<rparr>) peers)"
    by (induction peers) simp_all
  then show ?thesis
    using assms(1) t p
    by (simp add: getDiagInfo_def strings_valid_def slice_list_def example_strings_valid
        del: utf8_valid.simps)
qed

text \<open>
  Claim C6, as the code has it. \<open>Marshal\<close> returns the encoding of the snapshot, and
  decoding these bytes returns the snapshot with its strings coerced to valid UTF-8
  and nothing left of the input. When all strings of the snapshot are valid UTF-8 the
  decoded snapshot is the original: the same node id, the same list of connections
  with peer id and latency in the same order, the same uptime, the same list of keys
  (nil or not) and the same version string. The snapshots that \<open>getDiagInfo\<close> builds
  are of this kind when the printed ids of the node and of its peers are valid UTF-8.
\<close>
theorem snapshot_roundtrip:
  "Marshal di = Returns (encode_diagInfo di)
   \<and> Decode (encode_diagInfo di) = Inr (coerce_diagInfo di, [])
   \<and> (strings_valid di \<longrightarrow> Decode (encode_diagInfo di) = Inr (di, []))
   \<and> (utf8_valid (Pretty (self d))
        \<and> (\<forall>w. list_all (\<lambda>p. utf8_valid (Pretty p)) (fst (getPeers c w)))
      \<longrightarrow> strings_valid (fst (getDiagInfo c d w)))"
proof (intro conjI impI)
  show "Marshal di = Returns (encode_diagInfo di)" by (rule Marshal_Returns)
next
  show "Decode (encode_diagInfo di) = Inr (coerce_diagInfo di, [])"
    using Decode_encode [of di "[]"] by simp
next
  assume "strings_valid di"
  then show "Decode (encode_diagInfo di) = Inr (di, [])"
    using Decode_encode [of di "[]"] by (simp add: coerce_diagInfo_valid)
next
  assume "utf8_valid (Pretty (self d))
        \<and> (\<forall>w. list_all (\<lambda>p. utf8_valid (Pretty p)) (fst (getPeers c w)))"
  then show "strings_valid (fst (getDiagInfo c d w))"
    using getDiagInfo_strings_valid [of d c w] by simp
qed

theorem snapshot_roundtrip_witness:
  "strings_valid example_snapshot
   \<and> Decode (encode_diagInfo example_snapshot) = Inr (example_snapshot, [])
   \<and> utf8_valid (Pretty (self example_node))
   \<and> (\<forall>w. list_all (\<lambda>p. utf8_valid (Pretty p)) (fst (getPeers logging_net w)))
   \<and> strings_valid (fst (getDiagInfo logging_net example_node []))"
proof -
  have h1: "strings_valid example_snapshot" by (rule example_snapshot_valid)
  have h2: "utf8_valid (Pretty (self example_node))"
    by (simp add: example_node_def example_strings_valid del: utf8_valid.simps)
  have h3: "\<forall>w. list_all (\<lambda>p. utf8_valid (Pretty p)) (fst (getPeers logging_net w))"
    by (simp add: getPeers_def logging_net_def example_peer_def example_strings_valid
        del: utf8_valid.simps)
  note r = snapshot_roundtrip [of example_snapshot example_node logging_net "[]"]
  from r h1 have a: "Decode (encode_diagInfo example_snapshot) = Inr (example_snapshot, [])"
    by blast
  from r h2 h3 have b: "strings_valid (fst (getDiagInfo logging_net example_node []))"
    by blast
  from h1 h2 h3 a b show ?thesis by blast
qed

text \<open>
  A snapshot whose id is the byte FF, which starts no UTF-8 sequence: the decoded
  snapshot has the three bytes of U+FFFD as its id.
\<close>

theorem snapshot_roundtrip_counterexample:
  "Marshal invalid_snapshot = Returns (encode_diagInfo invalid_snapshot)
   \<and> Decode (encode_diagInfo invalid_snapshot)
       = Inr (invalid_snapshot\<lparr>ID := [CHR 0xEF, CHR 0xBF, CHR 0xBD]\<rparr>, [])
   \<and> ID invalid_snapshot = [CHR 0xFF]
   \<and> invalid_snapshot\<lparr>ID := [CHR 0xEF, CHR 0xBF, CHR 0xBD]\<rparr> \<noteq> invalid_snapshot"
proof -
  have "Decode (encode_diagInfo invalid_snapshot)
       = Inr (invalid_snapshot\<lparr>ID := [CHR 0xEF, CHR 0xBF, CHR 0xBD]\<rparr>, [])"
    using Decode_encode [of invalid_snapshot "[]"] by (simp add: coerce_invalid_snapshot)
  moreover have "ID invalid_snapshot = [CHR 0xFF]" by (simp add: invalid_snapshot_def)
  moreover have "invalid_snapshot\<lparr>ID := [CHR 0xEF, CHR 0xBF, CHR 0xBD]\<rparr> \<noteq> invalid_snapshot"
    by (simp add: invalid_snapshot_def)
  ultimately show ?thesis using Marshal_Returns [of invalid_snapshot] by blast
qed

lemma decode_loop_three:
  "decode_loop (encode_diagInfo a @ encode_diagInfo b @ encode_diagInfo c) []
     = [coerce_diagInfo a, coerce_diagInfo b, coerce_diagInfo c]"
proof -
  have "decode_loop (encode_diagInfo a @ encode_diagInfo b @ encode_diagInfo c) []
      = decode_loop (encode_diagInfo b @ encode_diagInfo c) [coerce_diagInfo a]"
    using decode_loop_encode [of a "encode_diagInfo b @ encode_diagInfo c" "[]"] by simp
  also have "\<dots> = decode_loop (encode_diagInfo c) [coerce_diagInfo a, coerce_diagInfo b]"
    using decode_loop_encode [of b "encode_diagInfo c" "[coerce_diagInfo a]"] by simp
  also have "\<dots> = decode_loop [] [coerce_diagInfo a, coerce_diagInfo b, coerce_diagInfo c]"
    using decode_loop_encode [of c "[]" "[coerce_diagInfo a, coerce_diagInfo b]"] by simp
  finally show ?thesis by (simp add: decode_loop_Nil)
qed

text \<open>
  Claim C7, as the code has it. The loop of \<open>GetDiagnostic\<close> on the encodings of three
  snapshots written one after the other, with nothing between them, returns three
  snapshots in the same order, the originals with their strings coerced to valid
  UTF-8; \<open>Decode\<close> on the empty rest reports the end of the stream. When the strings of
  the three snapshots are valid UTF-8, each call of \<open>Decode\<close> returns the next
  original and leaves the encodings that follow, and the loop returns exactly the
  three originals.
\<close>
theorem stream_of_three:
  "decode_loop (encode_diagInfo a @ encode_diagInfo b @ encode_diagInfo c) []
     = [coerce_diagInfo a, coerce_diagInfo b, coerce_diagInfo c]
   \<and> Decode [] = Inl io_EOF
   \<and> (strings_valid a \<and> strings_valid b \<and> strings_valid c \<longrightarrow>
        Decode (encode_diagInfo a @ encode_diagInfo b @ encode_diagInfo c)
          = Inr (a, encode_diagInfo b @ encode_diagInfo c)
        \<and> Decode (encode_diagInfo b @ encode_diagInfo c) = Inr (b, encode_diagInfo c)
        \<and> Decode (encode_diagInfo c) = Inr (c, [])
        \<and> decode_loop (encode_diagInfo a @ encode_diagInfo b @ encode_diagInfo c) [] = [a, b, c])"
proof (intro conjI impI)
  show "decode_loop (encode_diagInfo a @ encode_diagInfo b @ encode_diagInfo c) []
     = [coerce_diagInfo a, coerce_diagInfo b, coerce_diagInfo c]"
    by (rule decode_loop_three)
next
  show "Decode [] = Inl io_EOF" by (rule Decode_Nil)
next
  assume v: "strings_valid a \<and> strings_valid b \<and> strings_valid c"
  then show "Decode (encode_diagInfo a @ encode_diagInfo b @ encode_diagInfo c)
          = Inr (a, encode_diagInfo b @ encode_diagInfo c)"
    by (simp add: Decode_encode coerce_diagInfo_valid)
next
  assume v: "strings_valid a \<and> strings_valid b \<and> strings_valid c"
  then show "Decode (encode_diagInfo b @ encode_diagInfo c) = Inr (b, encode_diagInfo c)"
    by (simp add: Decode_encode coerce_diagInfo_valid)
next
  assume v: "strings_valid a \<and> strings_valid b \<and> strings_valid c"
  then show "Decode (encode_diagInfo c) = Inr (c, [])"
    using Decode_encode [of c "[]"] by (simp add: coerce_diagInfo_valid)
next
  assume v: "strings_valid a \<and> strings_valid b \<and> strings_valid c"
  then show "decode_loop (encode_diagInfo a @ encode_diagInfo b @ encode_diagInfo c) [] = [a, b, c]"
    by (simp add: decode_loop_three coerce_diagInfo_valid)
qed

definition second_snapshot :: diagInfo where
  "second_snapshot = \<lparr>ID = ''QmPeerB'', Connections = None, Keys = Some [],
     LifeSpan = - 3, CodeVersion = ''github.com/jbenet/go-ipfs''\<rparr>"

lemma second_snapshot_valid: "strings_valid second_snapshot"
  by (simp add: strings_valid_def second_snapshot_def slice_list_def example_strings_valid
      del: utf8_valid.simps)

theorem stream_of_three_witness:
  "strings_valid example_snapshot \<and> strings_valid second_snapshot \<and> strings_valid example_snapshot
   \<and> decode_loop (encode_diagInfo example_snapshot @ encode_diagInfo second_snapshot
        @ encode_diagInfo example_snapshot) []
      = [example_snapshot, second_snapshot, example_snapshot]
   \<and> Decode (encode_diagInfo example_snapshot) = Inr (example_snapshot, [])
   \<and> Decode [] = Inl io_EOF"
proof -
  have h: "strings_valid example_snapshot \<and> strings_valid second_snapshot
      \<and> strings_valid example_snapshot"
    using example_snapshot_valid second_snapshot_valid by simp
  from stream_of_three [of example_snapshot second_snapshot example_snapshot] h
  show ?thesis by blast
qed

text \<open>
  With the snapshot whose id is the byte FF in the first place, the first of the three
  decoded snapshots differs from the original.
\<close>

theorem stream_of_three_counterexample:
  "decode_loop (encode_diagInfo invalid_snapshot @ encode_diagInfo example_snapshot
        @ encode_diagInfo second_snapshot) []
     = [invalid_snapshot\<lparr>ID := [CHR 0xEF, CHR 0xBF, CHR 0xBD]\<rparr>, example_snapshot,
        second_snapshot]
   \<and> [invalid_snapshot\<lparr>ID := [CHR 0xEF, CHR 0xBF, CHR 0xBD]\<rparr>, example_snapshot,
        second_snapshot]
     \<noteq> [invalid_snapshot, example_snapshot, second_snapshot]"
proof -
  have "decode_loop (encode_diagInfo invalid_snapshot @ encode_diagInfo example_snapshot
        @ encode_diagInfo second_snapshot) []
     = [invalid_snapshot\<lparr>ID := [CHR 0xEF, CHR 0xBF, CHR 0xBD]\<rparr>, example_snapshot,
        second_snapshot]"
    by (simp add: decode_loop_three coerce_invalid_snapshot
        coerce_diagInfo_valid [OF example_snapshot_valid]
        coerce_diagInfo_valid [OF second_snapshot_valid])
  moreover have "invalid_snapshot\<lparr>ID := [CHR 0xEF, CHR 0xBF, CHR 0xBD]\<rparr> \<noteq> invalid_snapshot"
    by (simp add: invalid_snapshot_def)
  ultimately show ?thesis by simp
qed

text \<open>
  Claim C9. For every snapshot that \<open>getDiagInfo\<close> builds, the encoder meets no
  unsupported kind and returns the encoding, so \<open>Marshal\<close> returns it and does not
  panic.
\<close>
theorem Marshal_getDiagInfo_succeeds:
  "encode_val (reflect_diagInfo (fst (getDiagInfo c d w)))
     = Inr (encode_diagInfo (fst (getDiagInfo c d w)))
   \<and> Marshal (fst (getDiagInfo c d w)) = Returns (encode_diagInfo (fst (getDiagInfo c d w)))"
  by (simp add: encode_val_diagInfo Marshal_def json_Marshal_def)

subsection \<open>What a round collects\<close>

text \<open>
  The outcome of the exchange with one peer, read off the collaborators: \<open>rpc_fails\<close>
  lists the ways in which it fails (the request cannot be put in an envelope, the
  transport returns an error, the transport returns no message, the bytes of the
  response do not decode), \<open>rpc_payload\<close> is the payload of the decoded response when
  it does not fail, and \<open>rpc_world\<close> is the world after the exchange.
\<close>

definition rpc_fails :: "'w collaborators \<Rightarrow> 'w \<Rightarrow> Duration \<Rightarrow> Peer \<Rightarrow> Message \<Rightarrow> bool" where
  "rpc_fails c w ctx p pmes =
     (case FromObject c p pmes of
        Inl err \<Rightarrow> True
      | Inr mes \<Rightarrow>
          (case fst (SendRequest c (snd (time_Now c w)) ctx mes) of
             Inl err \<Rightarrow> True
           | Inr None \<Rightarrow> True
           | Inr (Some rmes) \<Rightarrow>
               (case proto_Unmarshal c (bytes_of (msg_Data rmes)) of
                  Inl err \<Rightarrow> True
                | Inr rpmes \<Rightarrow> False)))"

definition rpc_payload ::
  "'w collaborators \<Rightarrow> 'w \<Rightarrow> Duration \<Rightarrow> Peer \<Rightarrow> Message \<Rightarrow> bytes option" where
  "rpc_payload c w ctx p pmes =
     (case FromObject c p pmes of
        Inl err \<Rightarrow> None
      | Inr mes \<Rightarrow>
          (case fst (SendRequest c (snd (time_Now c w)) ctx mes) of
             Inl err \<Rightarrow> None
           | Inr None \<Rightarrow> None
           | Inr (Some rmes) \<Rightarrow>
               (case proto_Unmarshal c (bytes_of (msg_Data rmes)) of
                  Inl err \<Rightarrow> None
                | Inr rpmes \<Rightarrow> Data rpmes)))"

definition rpc_world :: "'w collaborators \<Rightarrow> 'w \<Rightarrow> Duration \<Rightarrow> Peer \<Rightarrow> Message \<Rightarrow> 'w" where
  "rpc_world c w ctx p pmes =
     (case FromObject c p pmes of
        Inl err \<Rightarrow> w
      | Inr mes \<Rightarrow>
          (case SendRequest c (snd (time_Now c w)) ctx mes of
             (Inl err, w2) \<Rightarrow> w2
           | (Inr None, w2) \<Rightarrow> w2
           | (Inr (Some rmes), w2) \<Rightarrow> snd (time_Now c w2)))"

text \<open>
  What the peers contribute to a round, in the order of the peer list: a peer whose
  exchange fails contributes nothing, any other peer the snapshots decoded from its
  payload (\<open>gathered\<close>, for the originator) or its payload as it is (\<open>relayed\<close>, for
  the responder). \<open>after_peers\<close> is the world after the exchanges.
\<close>

fun gathered ::
  "'w collaborators \<Rightarrow> Duration \<Rightarrow> Message \<Rightarrow> Peer list \<Rightarrow> 'w \<Rightarrow> diagInfo list" where
  "gathered c ctx pmes [] w = []"
| "gathered c ctx pmes (p # ps) w =
     (if rpc_fails c w ctx p pmes then []
      else decode_loop (bytes_of (rpc_payload c w ctx p pmes)) [])
     @ gathered c ctx pmes ps (rpc_world c w ctx p pmes)"

fun relayed ::
  "'w collaborators \<Rightarrow> Duration \<Rightarrow> Message \<Rightarrow> Peer list \<Rightarrow> 'w \<Rightarrow> bytes" where
  "relayed c ctx pmes [] w = []"
| "relayed c ctx pmes (p # ps) w =
     (if rpc_fails c w ctx p pmes then [] else bytes_of (rpc_payload c w ctx p pmes))
     @ relayed c ctx pmes ps (rpc_world c w ctx p pmes)"

fun after_peers ::
  "'w collaborators \<Rightarrow> Duration \<Rightarrow> Message \<Rightarrow> Peer list \<Rightarrow> 'w \<Rightarrow> 'w" where
  "after_peers c ctx pmes [] w = w"
| "after_peers c ctx pmes (p # ps) w = after_peers c ctx pmes ps (rpc_world c w ctx p pmes)"

lemma getDiagnosticFromPeer_fails:
  "rpc_fails c w ctx p pmes \<Longrightarrow>
   \<exists>err. getDiagnosticFromPeer c w ctx p pmes = ((None, Some err), rpc_world c w ctx p pmes)"
  by (auto simp: rpc_fails_def rpc_world_def getDiagnosticFromPeer_def sendRequest_def Let_def
      split: sum.splits option.splits prod.splits)

lemma getDiagnosticFromPeer_answers:
  "\<not> rpc_fails c w ctx p pmes \<Longrightarrow>
   getDiagnosticFromPeer c w ctx p pmes
     = ((rpc_payload c w ctx p pmes, None), rpc_world c w ctx p pmes)"
  by (auto simp: rpc_fails_def rpc_world_def rpc_payload_def getDiagnosticFromPeer_def
      sendRequest_def GetData_def Let_def split: sum.splits option.splits prod.splits)

lemma decode_loop_acc: "decode_loop buf out = out @ decode_loop buf []"
proof (induction "length buf" arbitrary: buf out rule: less_induct)
  case less
  show ?case
  proof (cases "Decode buf")
    case (Inl e)
    then show ?thesis by (subst (1 2) decode_loop.simps) simp
  next
    case (Inr x)
    obtain di rest where x: "x = (di, rest)" by (cases x)
    have l: "length rest < length buf" using Decode_shorter Inr x by blast
    have a: "decode_loop rest (out @ [di]) = (out @ [di]) @ decode_loop rest []"
      by (rule less.hyps [OF l])
    have b: "decode_loop rest [di] = [di] @ decode_loop rest []"
      using less.hyps [OF l, of "[di]"] by simp
    have "decode_loop buf out = decode_loop rest (out @ [di])"
      using Inr x by (subst decode_loop.simps) simp
    moreover have "decode_loop buf [] = decode_loop rest [di]"
      using Inr x by (subst decode_loop.simps) simp
    ultimately show ?thesis using a b by simp
  qed
qed

lemma GetDiagnostic_loop_gathered:
  "GetDiagnostic_loop c ctx pmes ps out w
     = (out @ gathered c ctx pmes ps w, after_peers c ctx pmes ps w)"
proof (induction ps arbitrary: out w)
  case Nil
  show ?case by simp
next
  case (Cons p ps)
  show ?case
  proof (cases "rpc_fails c w ctx p pmes")
    case True
    from getDiagnosticFromPeer_fails [OF True] obtain err where
      "getDiagnosticFromPeer c w ctx p pmes = ((None, Some err), rpc_world c w ctx p pmes)" ..
    then show ?thesis using True Cons.IH by simp
  next
    case False
    have d: "decode_loop (bytes_of (rpc_payload c w ctx p pmes)) out
        = out @ decode_loop (bytes_of (rpc_payload c w ctx p pmes)) []"
      by (rule decode_loop_acc)
    show ?thesis
      using False getDiagnosticFromPeer_answers [OF False] Cons.IH
      by (simp add: d)
  qed
qed

lemma handleDiagnostic_loop_relayed:
  "handleDiagnostic_loop c ctx pmes ps buf w
     = (buf @ relayed c ctx pmes ps w, after_peers c ctx pmes ps w)"
proof (induction ps arbitrary: buf w)
  case Nil
  show ?case by simp
next
  case (Cons p ps)
  show ?case
  proof (cases "rpc_fails c w ctx p pmes")
    case True
    from getDiagnosticFromPeer_fails [OF True] obtain err where
      "getDiagnosticFromPeer c w ctx p pmes = ((None, Some err), rpc_world c w ctx p pmes)" ..
    then show ?thesis using True Cons.IH by simp
  next
    case False
    show ?thesis
      using False getDiagnosticFromPeer_answers [OF False] Cons.IH by simp
  qed
qed

lemma getDiagInfo_fields:
  "ID (fst (getDiagInfo c d w)) = Pretty (self d)"
  "Keys (fst (getDiagInfo c d w)) = None"
  "CodeVersion (fst (getDiagInfo c d w)) = ''github.com/jbenet/go-ipfs''"
  "LifeSpan (fst (getDiagInfo c d w)) = time_Sub (fst (time_Now c w)) (birth d)"
  by (simp_all add: getDiagInfo_def Let_def split: prod.splits)

lemma getDiagInfo_no_peers:
  "fst (getPeers c (snd (time_Now c w))) = [] \<Longrightarrow> Connections (fst (getDiagInfo c d w)) = None"
  by (cases "time_Now c w"; cases "getPeers c (snd (time_Now c w))")
    (auto simp: getDiagInfo_def Let_def)

lemma GetDiagnostic_result:
  assumes "newID c w = (diagID, w1)" and "time_Now c w1 = (now, w2)"
    and "getPeers c w2 = (peers, w3)"
    and "getDiagInfo c (d\<lparr>diagMap := (diagMap d)(diagID \<mapsto> now)\<rparr>) w3 = (own, w4)"
  shows "GetDiagnostic c d w timeout
    = ((own # gathered c timeout (newMessage diagID) peers w4, None),
       d\<lparr>diagMap := (diagMap d)(diagID \<mapsto> now)\<rparr>,
       after_peers c timeout (newMessage diagID) peers w4)"
  using assms by (simp add: GetDiagnostic_def GetDiagnostic_loop_gathered Let_def)

lemma handleDiagnostic_result:
  assumes "diagMap d (GetDiagID pmes) = None" and "time_Now c w = (now, w1)"
    and "getDiagInfo c (d\<lparr>diagMap := (diagMap d)(GetDiagID pmes \<mapsto> now)\<rparr>) w1 = (own, w2)"
    and "getPeers c w2 = (peers, w3)"
  shows "handleDiagnostic c d w p pmes
    = (Returns (Some \<lparr>DiagID = Some (GetDiagID pmes),
          Data = Some (encode_diagInfo own @ relayed c (10 * 1000000000) pmes peers w3)\<rparr>, None),
       d\<lparr>diagMap := (diagMap d)(GetDiagID pmes \<mapsto> now)\<rparr>,
       after_peers c (10 * 1000000000) pmes peers w3)"
  using assms
  by (simp add: handleDiagnostic_def Marshal_Returns newMessage_def handleDiagnostic_loop_relayed
      Let_def)

subsection \<open>Example networks with failing peers\<close>

text \<open>
  \<open>late_net\<close> counts the reads of the peer list: the first two reads find no peer, every
  later one finds \<open>example_peer\<close>. In \<open>mixed_net\<close> the node has four peers; the transport
  fails for \<open>down_peer\<close>, returns no message for \<open>mute_peer\<close>, returns for \<open>garbled_peer\<close>
  a message whose bytes do not decode, and returns for \<open>example_peer\<close> a response that
  carries the encoding of \<open>second_snapshot\<close>. The world of \<open>mixed_net\<close> is the list of
  the requests sent so far.
\<close>

definition late_net :: "nat collaborators" where
  "late_net = \<lparr>GetPeerList = Some (\<lambda>n. (if n < 2 then [] else [example_peer], n + 1)),
     SendRequest = (\<lambda>n ctx mes. (Inr None, n)),
     FromObject = (\<lambda>p m. Inr \<lparr>msg_Peer = Some p, msg_Data = Some (GetDiagID m)\<rparr>),
     proto_Unmarshal = (\<lambda>b. Inr \<lparr>DiagID = Some b, Data = None\<rparr>),
     time_Now = (\<lambda>n. (9, n)), rand_Read = (\<lambda>n. (''abcd'', n))\<rparr>"

definition down_peer :: Peer where
  "down_peer = \<lparr>Pretty = ''QmPeerC'', GetLatency = 3\<rparr>"

definition mute_peer :: Peer where
  "mute_peer = \<lparr>Pretty = ''QmPeerD'', GetLatency = 4\<rparr>"

definition garbled_peer :: Peer where
  "garbled_peer = \<lparr>Pretty = ''QmPeerE'', GetLatency = 5\<rparr>"

definition mixed_net :: "(NetMessage list) collaborators" where
  "mixed_net = \<lparr>GetPeerList = Some (\<lambda>w. ([down_peer, mute_peer, example_peer, garbled_peer], w)),
     SendRequest = (\<lambda>w ctx mes.
        (if msg_Peer mes = Some example_peer
         then Inr (Some \<lparr>msg_Peer = Some example_peer,
                          msg_Data = Some (encode_diagInfo second_snapshot)\<rparr>)
         else if msg_Peer mes = Some mute_peer then Inr None
         else if msg_Peer mes = Some garbled_peer
         then Inr (Some \<lparr>msg_Peer = Some garbled_peer, msg_Data = None\<rparr>)
         else Inl (errors_New ''i/o timeout''), w @ [mes])),
     FromObject = (\<lambda>p m. Inr \<lparr>msg_Peer = Some p, msg_Data = Some (GetDiagID m)\<rparr>),
     proto_Unmarshal = (\<lambda>b. if b = [] then Inl (errors_New ''proto: required field not set'')
                             else Inr \<lparr>DiagID = Some ''abcd'', Data = Some b\<rparr>),
     time_Now = (\<lambda>w. (9, w)), rand_Read = (\<lambda>w. (''abcd'', w))\<rparr>"

definition mixed_own :: diagInfo where
  "mixed_own = \<lparr>ID = ''QmSelfA'',
     Connections = Some [\<lparr>Latency = 3, ConnID = ''QmPeerC''\<rparr>, \<lparr>Latency = 4, ConnID = ''QmPeerD''\<rparr>,
                         \<lparr>Latency = 7, ConnID = ''QmPeerB''\<rparr>, \<lparr>Latency = 5, ConnID = ''QmPeerE''\<rparr>],
     Keys = None, LifeSpan = 9, CodeVersion = ''github.com/jbenet/go-ipfs''\<rparr>"

definition request_to :: "Peer \<Rightarrow> string \<Rightarrow> NetMessage" where
  "request_to p diagID = \<lparr>msg_Peer = Some p, msg_Data = Some diagID\<rparr>"

lemma encode_diagInfo_not_Nil: "encode_diagInfo di \<noteq> []"
  using encode_diagInfo_Cons [of di "[]"] by auto

lemma decode_loop_single: "decode_loop (encode_diagInfo di) [] = [coerce_diagInfo di]"
  using decode_loop_encode [of di "[]" "[]"] by (simp add: decode_loop_Nil)

lemma mixed_peers_distinct:
  "down_peer \<noteq> example_peer" "down_peer \<noteq> mute_peer" "down_peer \<noteq> garbled_peer"
  "mute_peer \<noteq> example_peer" "garbled_peer \<noteq> example_peer" "garbled_peer \<noteq> mute_peer"
  by (simp_all add: down_peer_def mute_peer_def garbled_peer_def example_peer_def)

lemma mixed_net_world:
  "rpc_world mixed_net w ctx p (newMessage diagID) = w @ [request_to p diagID]"
  by (simp add: rpc_world_def mixed_net_def request_to_def GetDiagID_def newMessage_def)

lemma mixed_net_fails:
  "rpc_fails mixed_net w ctx down_peer (newMessage diagID)"
  "rpc_fails mixed_net w ctx mute_peer (newMessage diagID)"
  "rpc_fails mixed_net w ctx garbled_peer (newMessage diagID)"
  by (simp_all add: rpc_fails_def mixed_net_def mixed_peers_distinct bytes_of_def)

lemma mixed_net_answers:
  "\<not> rpc_fails mixed_net w ctx example_peer (newMessage diagID)"
  "rpc_payload mixed_net w ctx example_peer (newMessage diagID)
     = Some (encode_diagInfo second_snapshot)"
  by (simp_all add: rpc_fails_def rpc_payload_def mixed_net_def bytes_of_def
      encode_diagInfo_not_Nil)

lemma mixed_net_gathered:
  "gathered mixed_net ctx (newMessage diagID) [down_peer, mute_peer, example_peer, garbled_peer] w
     = [second_snapshot]"
  by (simp add: mixed_net_fails mixed_net_answers mixed_net_world bytes_of_def decode_loop_single
      coerce_diagInfo_valid [OF second_snapshot_valid])

lemma mixed_net_relayed:
  "relayed mixed_net ctx (newMessage diagID) [down_peer, mute_peer, example_peer, garbled_peer] w
     = encode_diagInfo second_snapshot"
  by (simp add: mixed_net_fails mixed_net_answers mixed_net_world bytes_of_def)

lemma mixed_net_after_peers:
  "after_peers mixed_net ctx (newMessage diagID)
     [down_peer, mute_peer, example_peer, garbled_peer] w
     = w @ [request_to down_peer diagID, request_to mute_peer diagID,
            request_to example_peer diagID, request_to garbled_peer diagID]"
  by (simp add: mixed_net_world)

lemma mixed_net_calls:
  "newID mixed_net w = (''abcd'', w)"
  "time_Now mixed_net w = (9, w)"
  "getPeers mixed_net w = ([down_peer, mute_peer, example_peer, garbled_peer], w)"
  "getDiagInfo mixed_net (fresh_node\<lparr>diagMap := m\<rparr>) w = (mixed_own, w)"
  by (simp_all add: newID_def getPeers_def getDiagInfo_def mixed_net_def mixed_own_def
      fresh_node_def time_Sub_def down_peer_def mute_peer_def garbled_peer_def example_peer_def)

lemma mixed_net_getDiagInfo_example:
  "getDiagInfo mixed_net (example_node\<lparr>diagMap := m\<rparr>) w = (mixed_own, w)"
  by (simp add: getPeers_def getDiagInfo_def mixed_net_def mixed_own_def
      example_node_def time_Sub_def down_peer_def mute_peer_def garbled_peer_def example_peer_def)

lemma late_net_calls:
  "newID late_net n = (''abcd'', n)"
  "time_Now late_net n = (9, n)"
  "getPeers late_net n = (if n < 2 then [] else [example_peer], n + 1)"
  by (simp_all add: newID_def getPeers_def late_net_def)

subsection \<open>The originator\<close>

text \<open>
  Claim C3. Let \<open>diagID\<close> be the id that \<open>newID\<close> draws, \<open>now\<close> the time at which it is
  written in the ledger, and \<open>own\<close> the snapshot that \<open>getDiagInfo\<close> builds of the node
  itself. When the peer list that \<open>GetDiagnostic\<close> reads (line 107) is empty, whatever
  the peer list is in any other state of the world, \<open>GetDiagnostic\<close> returns the list
  with the one element \<open>own\<close> and a nil error. \<open>own\<close> has the id of the node, no keys,
  its life span and the version string; it has no connections when the peer list that
  \<open>getDiagInfo\<close> reads in its turn is empty as well.
\<close>
theorem GetDiagnostic_no_peers:
  assumes "newID c w = (diagID, w1)" and "time_Now c w1 = (now, w2)"
    and "getPeers c w2 = ([], w3)"
    and "getDiagInfo c (d\<lparr>diagMap := (diagMap d)(diagID \<mapsto> now)\<rparr>) w3 = (own, w4)"
  shows "GetDiagnostic c d w timeout
      = (([own], None), d\<lparr>diagMap := (diagMap d)(diagID \<mapsto> now)\<rparr>, w4)
    \<and> ID own = Pretty (self d) \<and> Keys own = None
    \<and> LifeSpan own = time_Sub (fst (time_Now c w3)) (birth d)
    \<and> CodeVersion own = ''github.com/jbenet/go-ipfs''
    \<and> (fst (getPeers c (snd (time_Now c w3))) = [] \<longrightarrow> Connections own = None)"
proof -
  let ?d1 = "d\<lparr>diagMap := (diagMap d)(diagID \<mapsto> now)\<rparr>"
  have r: "GetDiagnostic c d w timeout = (([own], None), ?d1, w4)"
    using GetDiagnostic_result [OF assms, of timeout] by simp
  have o: "own = fst (getDiagInfo c ?d1 w3)" using assms(4) by simp
  have "ID own = Pretty (self d)" "Keys own = None"
    "LifeSpan own = time_Sub (fst (time_Now c w3)) (birth d)"
    "CodeVersion own = ''github.com/jbenet/go-ipfs''"
    unfolding o by (simp_all add: getDiagInfo_fields)
  moreover have "fst (getPeers c (snd (time_Now c w3))) = [] \<longrightarrow> Connections own = None"
    unfolding o using getDiagInfo_no_peers [of c w3 ?d1] by blast
  ultimately show ?thesis using r by blast
qed

theorem GetDiagnostic_no_peers_witness:
  "newID late_net 0 = (''abcd'', 0) \<and> time_Now late_net 0 = (9, 0)
   \<and> getPeers late_net 0 = ([], 1)
   \<and> getDiagInfo late_net (fresh_node\<lparr>diagMap := (diagMap fresh_node)(''abcd'' \<mapsto> 9)\<rparr>) 1
       = (\<lparr>ID = ''QmSelfA'', Connections = None, Keys = None, LifeSpan = 9,
           CodeVersion = ''github.com/jbenet/go-ipfs''\<rparr>, 2)
   \<and> fst (getPeers late_net 2) = [example_peer]
   \<and> GetDiagnostic late_net fresh_node 0 1000
       = (([\<lparr>ID = ''QmSelfA'', Connections = None, Keys = None, LifeSpan = 9,
             CodeVersion = ''github.com/jbenet/go-ipfs''\<rparr>], None),
          fresh_node\<lparr>diagMap := (diagMap fresh_node)(''abcd'' \<mapsto> 9)\<rparr>, 2)"
proof -
  let ?own = "\<lparr>ID = ''QmSelfA'', Connections = None, Keys = None, LifeSpan = 9,
           CodeVersion = ''github.com/jbenet/go-ipfs''\<rparr>"
  have n: "newID late_net 0 = (''abcd'', 0)" and t: "time_Now late_net 0 = (9, 0)"
    and p: "getPeers late_net 0 = ([], 1)"
    by (simp_all add: late_net_calls)
  have g: "getDiagInfo late_net (fresh_node\<lparr>diagMap := (diagMap fresh_node)(''abcd'' \<mapsto> 9)\<rparr>) 1
      = (?own, 2)"
    by (simp add: getDiagInfo_def late_net_calls fresh_node_def time_Sub_def)
  have l: "fst (getPeers late_net 2) = [example_peer]" by (simp add: late_net_calls)
  from GetDiagnostic_no_peers [OF n t p g, of 1000] n t p g l show ?thesis by blast
qed

text \<open>
  Claim C4. \<open>GetDiagnostic\<close> returns a nil error on every input (the source has no
  other return), and the list it returns is the own snapshot followed by what
  \<open>gathered\<close> collects: for each peer of the list read at line 107, in order, nothing
  when the exchange with the peer fails in one of the ways of \<open>rpc_fails\<close> (and then
  \<open>getDiagnosticFromPeer\<close> returned an error), the snapshots decoded from its payload
  otherwise; in both cases the round goes on with the next peer.
\<close>
theorem GetDiagnostic_swallows_peer_failures:
  assumes "newID c w = (diagID, w1)" and "time_Now c w1 = (now, w2)"
    and "getPeers c w2 = (peers, w3)"
    and "getDiagInfo c (d\<lparr>diagMap := (diagMap d)(diagID \<mapsto> now)\<rparr>) w3 = (own, w4)"
  shows "GetDiagnostic c d w timeout
      = ((own # gathered c timeout (newMessage diagID) peers w4, None),
         d\<lparr>diagMap := (diagMap d)(diagID \<mapsto> now)\<rparr>,
         after_peers c timeout (newMessage diagID) peers w4)
    \<and> (rpc_fails c v ctx q pmes \<longrightarrow>
         (\<exists>err. getDiagnosticFromPeer c v ctx q pmes
                  = ((None, Some err), rpc_world c v ctx q pmes))
         \<and> gathered c ctx pmes (q # qs) v = gathered c ctx pmes qs (rpc_world c v ctx q pmes))
    \<and> (\<not> rpc_fails c v ctx q pmes \<longrightarrow>
         getDiagnosticFromPeer c v ctx q pmes
           = ((rpc_payload c v ctx q pmes, None), rpc_world c v ctx q pmes)
         \<and> gathered c ctx pmes (q # qs) v
           = decode_loop (bytes_of (rpc_payload c v ctx q pmes)) []
             @ gathered c ctx pmes qs (rpc_world c v ctx q pmes))"
proof (intro conjI impI)
  show "GetDiagnostic c d w timeout
      = ((own # gathered c timeout (newMessage diagID) peers w4, None),
         d\<lparr>diagMap := (diagMap d)(diagID \<mapsto> now)\<rparr>,
         after_peers c timeout (newMessage diagID) peers w4)"
    by (rule GetDiagnostic_result [OF assms])
next
  assume "rpc_fails c v ctx q pmes"
  then show "\<exists>err. getDiagnosticFromPeer c v ctx q pmes
      = ((None, Some err), rpc_world c v ctx q pmes)"
    by (rule getDiagnosticFromPeer_fails)
next
  assume "rpc_fails c v ctx q pmes"
  then show "gathered c ctx pmes (q # qs) v = gathered c ctx pmes qs (rpc_world c v ctx q pmes)"
    by simp
next
  assume "\<not> rpc_fails c v ctx q pmes"
  then show "getDiagnosticFromPeer c v ctx q pmes
           = ((rpc_payload c v ctx q pmes, None), rpc_world c v ctx q pmes)"
    by (rule getDiagnosticFromPeer_answers)
next
  assume "\<not> rpc_fails c v ctx q pmes"
  then show "gathered c ctx pmes (q # qs) v
           = decode_loop (bytes_of (rpc_payload c v ctx q pmes)) []
             @ gathered c ctx pmes qs (rpc_world c v ctx q pmes)"
    by simp
qed

theorem GetDiagnostic_swallows_peer_failures_witness:
  "newID mixed_net [] = (''abcd'', []) \<and> time_Now mixed_net [] = (9, [])
   \<and> getPeers mixed_net [] = ([down_peer, mute_peer, example_peer, garbled_peer], [])
   \<and> getDiagInfo mixed_net (fresh_node\<lparr>diagMap := (diagMap fresh_node)(''abcd'' \<mapsto> 9)\<rparr>) []
       = (mixed_own, [])
   \<and> GetDiagnostic mixed_net fresh_node [] 1000
       = (([mixed_own, second_snapshot], None),
          fresh_node\<lparr>diagMap := (diagMap fresh_node)(''abcd'' \<mapsto> 9)\<rparr>,
          [request_to down_peer ''abcd'', request_to mute_peer ''abcd'',
           request_to example_peer ''abcd'', request_to garbled_peer ''abcd''])
   \<and> rpc_fails mixed_net [] 1000 down_peer (newMessage ''abcd'')
   \<and> (\<exists>err. getDiagnosticFromPeer mixed_net [] 1000 down_peer (newMessage ''abcd'')
         = ((None, Some err), [request_to down_peer ''abcd'']))
   \<and> gathered mixed_net 1000 (newMessage ''abcd'') [down_peer, example_peer] []
       = gathered mixed_net 1000 (newMessage ''abcd'') [example_peer]
           [request_to down_peer ''abcd'']
   \<and> \<not> rpc_fails mixed_net [request_to down_peer ''abcd''] 1000 example_peer
         (newMessage ''abcd'')
   \<and> getDiagnosticFromPeer mixed_net [request_to down_peer ''abcd''] 1000 example_peer
         (newMessage ''abcd'')
       = ((Some (encode_diagInfo second_snapshot), None),
          [request_to down_peer ''abcd'', request_to example_peer ''abcd''])
   \<and> gathered mixed_net 1000 (newMessage ''abcd'') [example_peer]
         [request_to down_peer ''abcd'']
       = decode_loop (encode_diagInfo second_snapshot) []
         @ gathered mixed_net 1000 (newMessage ''abcd'') []
             [request_to down_peer ''abcd'', request_to example_peer ''abcd'']"
proof -
  have n: "newID mixed_net [] = (''abcd'', [])" and t: "time_Now mixed_net [] = (9, [])"
    and p: "getPeers mixed_net [] = ([down_peer, mute_peer, example_peer, garbled_peer], [])"
    and g: "getDiagInfo mixed_net
        (fresh_node\<lparr>diagMap := (diagMap fresh_node)(''abcd'' \<mapsto> 9)\<rparr>) [] = (mixed_own, [])"
    by (simp_all only: mixed_net_calls)
  have f: "rpc_fails mixed_net [] 1000 down_peer (newMessage ''abcd'')"
    by (rule mixed_net_fails)
  have k: "\<not> rpc_fails mixed_net [request_to down_peer ''abcd''] 1000 example_peer
      (newMessage ''abcd'')"
    by (rule mixed_net_answers)
  note r = GetDiagnostic_swallows_peer_failures [OF n t p g, of 1000]
  have a: "GetDiagnostic mixed_net fresh_node [] 1000
       = (([mixed_own, second_snapshot], None),
          fresh_node\<lparr>diagMap := (diagMap fresh_node)(''abcd'' \<mapsto> 9)\<rparr>,
          [request_to down_peer ''abcd'', request_to mute_peer ''abcd'',
           request_to example_peer ''abcd'', request_to garbled_peer ''abcd''])"
    using r [THEN conjunct1]
    by (simp only: mixed_net_gathered mixed_net_after_peers append_Nil)
  note rf = r [THEN conjunct2, THEN conjunct1, THEN mp, OF f, of "[example_peer]"]
  note rk = r [THEN conjunct2, THEN conjunct2, THEN mp, OF k, of "[]"]
  have b: "\<exists>err. getDiagnosticFromPeer mixed_net [] 1000 down_peer (newMessage ''abcd'')
         = ((None, Some err), [request_to down_peer ''abcd''])"
    using rf [THEN conjunct1] by (simp only: mixed_net_world append_Nil)
  have c: "gathered mixed_net 1000 (newMessage ''abcd'') [down_peer, example_peer] []
       = gathered mixed_net 1000 (newMessage ''abcd'') [example_peer]
           [request_to down_peer ''abcd'']"
    using rf [THEN conjunct2] by (simp only: mixed_net_world append_Nil)
  have d: "getDiagnosticFromPeer mixed_net [request_to down_peer ''abcd''] 1000 example_peer
         (newMessage ''abcd'')
       = ((Some (encode_diagInfo second_snapshot), None),
          [request_to down_peer ''abcd'', request_to example_peer ''abcd''])"
    using rk [THEN conjunct1]
    by (simp only: mixed_net_world mixed_net_answers append_Cons append_Nil)
  have e: "gathered mixed_net 1000 (newMessage ''abcd'') [example_peer]
         [request_to down_peer ''abcd'']
       = decode_loop (encode_diagInfo second_snapshot) []
         @ gathered mixed_net 1000 (newMessage ''abcd'') []
             [request_to down_peer ''abcd'', request_to example_peer ''abcd'']"
    using rk [THEN conjunct2]
    by (simp only: mixed_net_world mixed_net_answers bytes_of_def option.case append_Cons
        append_Nil)
  from n t p g a f b c k d e show ?thesis by (intro conjI)
qed

subsection \<open>The own snapshot comes first\<close>

text \<open>
  Claim C5. The list that \<open>GetDiagnostic\<close> returns is the snapshot \<open>own\<close> that
  \<open>getDiagInfo\<close> built of the node itself, followed by what \<open>gathered\<close> collects from
  the peers. The payload of the response of \<open>handleDiagnostic\<close> to a request whose id
  was not in the ledger is the encoding of the snapshot \<open>own'\<close> that \<open>getDiagInfo\<close>
  built of the node itself, followed by the payloads that the peers returned (\<open>relayed\<close>),
  and it decodes to \<open>own'\<close> (its strings coerced to UTF-8) followed by what the payloads
  of the peers decode to. The response to a request whose id was already in the ledger
  has no payload, so no snapshot at all.
\<close>
theorem own_snapshot_first:
  assumes "newID c w = (diagID, w1)" and "time_Now c w1 = (now, w2)"
    and "getPeers c w2 = (peers, w3)"
    and "getDiagInfo c (d\<lparr>diagMap := (diagMap d)(diagID \<mapsto> now)\<rparr>) w3 = (own, w4)"
    and "time_Now c w = (now', v1)"
    and "getDiagInfo c (d\<lparr>diagMap := (diagMap d)(GetDiagID pmes \<mapsto> now')\<rparr>) v1 = (own', v2)"
    and "getPeers c v2 = (peers', v3)"
  shows "fst (GetDiagnostic c d w timeout)
      = (own # gathered c timeout (newMessage diagID) peers w4, None)
    \<and> ID own = Pretty (self d)
    \<and> (diagMap d (GetDiagID pmes) = None \<longrightarrow>
         handleDiagnostic c d w p pmes
           = (Returns (Some \<lparr>DiagID = Some (GetDiagID pmes),
                 Data = Some (encode_diagInfo own'
                   @ relayed c (10 * 1000000000) pmes peers' v3)\<rparr>, None),
              d\<lparr>diagMap := (diagMap d)(GetDiagID pmes \<mapsto> now')\<rparr>,
              after_peers c (10 * 1000000000) pmes peers' v3)
         \<and> decode_loop (encode_diagInfo own' @ relayed c (10 * 1000000000) pmes peers' v3) []
           = coerce_diagInfo own' # decode_loop (relayed c (10 * 1000000000) pmes peers' v3) []
         \<and> ID own' = Pretty (self d))
    \<and> (diagMap d (GetDiagID pmes) \<noteq> None \<longrightarrow>
         handleDiagnostic c d w p pmes
           = (Returns (Some \<lparr>DiagID = Some (GetDiagID pmes), Data = None\<rparr>, None), d, w))"
proof (intro conjI impI)
  show "fst (GetDiagnostic c d w timeout)
      = (own # gathered c timeout (newMessage diagID) peers w4, None)"
    using GetDiagnostic_result [OF assms(1-4), of timeout] by simp
next
  have "own = fst (getDiagInfo c (d\<lparr>diagMap := (diagMap d)(diagID \<mapsto> now)\<rparr>) w3)"
    using assms(4) by simp
  then show "ID own = Pretty (self d)" by (simp add: getDiagInfo_fields)
next
  assume "diagMap d (GetDiagID pmes) = None"
  then show "handleDiagnostic c d w p pmes
           = (Returns (Some \<lparr>DiagID = Some (GetDiagID pmes),
                 Data = Some (encode_diagInfo own'
                   @ relayed c (10 * 1000000000) pmes peers' v3)\<rparr>, None),
              d\<lparr>diagMap := (diagMap d)(GetDiagID pmes \<mapsto> now')\<rparr>,
              after_peers c (10 * 1000000000) pmes peers' v3)"
    using assms(5-7) by (rule handleDiagnostic_result)
next
  have "decode_loop (encode_diagInfo own' @ relayed c (10 * 1000000000) pmes peers' v3) []
      = decode_loop (relayed c (10 * 1000000000) pmes peers' v3) [coerce_diagInfo own']"
    using decode_loop_encode [of own' "relayed c (10 * 1000000000) pmes peers' v3" "[]"] by simp
  also have "\<dots> = [coerce_diagInfo own']
      @ decode_loop (relayed c (10 * 1000000000) pmes peers' v3) []"
    by (rule decode_loop_acc)
  finally show "decode_loop
        (encode_diagInfo own' @ relayed c (10 * 1000000000) pmes peers' v3) []
      = coerce_diagInfo own' # decode_loop (relayed c (10 * 1000000000) pmes peers' v3) []"
    by simp
next
  have "own' = fst (getDiagInfo c (d\<lparr>diagMap := (diagMap d)(GetDiagID pmes \<mapsto> now')\<rparr>) v1)"
    using assms(6) by simp
  then show "ID own' = Pretty (self d)" by (simp add: getDiagInfo_fields)
next
  assume "diagMap d (GetDiagID pmes) \<noteq> None"
  then obtain t where "diagMap d (GetDiagID pmes) = Some t" by auto
  from handleDiagnostic_found [OF this, of c w p]
  show "handleDiagnostic c d w p pmes
      = (Returns (Some \<lparr>DiagID = Some (GetDiagID pmes), Data = None\<rparr>, None), d, w)"
    by (simp add: newMessage_def)
qed

theorem own_snapshot_first_witness:
  "newID mixed_net [] = (''abcd'', []) \<and> time_Now mixed_net [] = (9, [])
   \<and> getPeers mixed_net [] = ([down_peer, mute_peer, example_peer, garbled_peer], [])
   \<and> getDiagInfo mixed_net (fresh_node\<lparr>diagMap := (diagMap fresh_node)(''abcd'' \<mapsto> 9)\<rparr>) []
       = (mixed_own, [])
   \<and> getDiagInfo mixed_net (fresh_node\<lparr>diagMap := (diagMap fresh_node)(''wxyz'' \<mapsto> 9)\<rparr>) []
       = (mixed_own, [])
   \<and> fst (GetDiagnostic mixed_net fresh_node [] 1000) = ([mixed_own, second_snapshot], None)
   \<and> diagMap fresh_node (GetDiagID (newMessage ''wxyz'')) = None
   \<and> handleDiagnostic mixed_net fresh_node [] example_peer (newMessage ''wxyz'')
       = (Returns (Some \<lparr>DiagID = Some ''wxyz'',
             Data = Some (encode_diagInfo mixed_own @ encode_diagInfo second_snapshot)\<rparr>, None),
          fresh_node\<lparr>diagMap := (diagMap fresh_node)(''wxyz'' \<mapsto> 9)\<rparr>,
          [request_to down_peer ''wxyz'', request_to mute_peer ''wxyz'',
           request_to example_peer ''wxyz'', request_to garbled_peer ''wxyz''])
   \<and> decode_loop (encode_diagInfo mixed_own @ encode_diagInfo second_snapshot) []
       = [coerce_diagInfo mixed_own, second_snapshot]
   \<and> getDiagInfo mixed_net (example_node\<lparr>diagMap := (diagMap example_node)(''abcd'' \<mapsto> 9)\<rparr>) []
       = (mixed_own, [])
   \<and> diagMap example_node (GetDiagID (newMessage ''abcd'')) \<noteq> None
   \<and> handleDiagnostic mixed_net example_node [] down_peer (newMessage ''abcd'')
       = (Returns (Some \<lparr>DiagID = Some ''abcd'', Data = None\<rparr>, None), example_node, [])"
proof -
  have i: "GetDiagID (newMessage ''wxyz'') = ''wxyz''"
    and j: "GetDiagID (newMessage ''abcd'') = ''abcd''"
    by (simp_all add: GetDiagID_def newMessage_def)
  have n: "newID mixed_net [] = (''abcd'', [])" and t: "time_Now mixed_net [] = (9, [])"
    and p: "getPeers mixed_net [] = ([down_peer, mute_peer, example_peer, garbled_peer], [])"
    and g: "getDiagInfo mixed_net
        (fresh_node\<lparr>diagMap := (diagMap fresh_node)(''abcd'' \<mapsto> 9)\<rparr>) [] = (mixed_own, [])"
    and g': "getDiagInfo mixed_net
        (fresh_node\<lparr>diagMap := (diagMap fresh_node)(GetDiagID (newMessage ''wxyz'') \<mapsto> 9)\<rparr>) []
        = (mixed_own, [])"
    by (simp_all only: mixed_net_calls)
  have ge: "getDiagInfo mixed_net
        (example_node\<lparr>diagMap := (diagMap example_node)(''abcd'' \<mapsto> 9)\<rparr>) [] = (mixed_own, [])"
    and ge': "getDiagInfo mixed_net
        (example_node\<lparr>diagMap := (diagMap example_node)(GetDiagID (newMessage ''abcd'') \<mapsto> 9)\<rparr>)
        [] = (mixed_own, [])"
    by (simp_all only: mixed_net_getDiagInfo_example)
  have h: "diagMap fresh_node (GetDiagID (newMessage ''wxyz'')) = None"
    by (simp add: fresh_node_def)
  have h': "diagMap example_node (GetDiagID (newMessage ''abcd'')) \<noteq> None"
    by (simp add: example_node_def j)
  note r = own_snapshot_first [OF n t p g t g' p, of 1000 example_peer]
  note r' = r [THEN conjunct2, THEN conjunct2, THEN conjunct1, THEN mp, OF h]
  note s = own_snapshot_first [OF n t p ge t ge' p, of 1000 down_peer]
  have a: "fst (GetDiagnostic mixed_net fresh_node [] 1000)
      = ([mixed_own, second_snapshot], None)"
    using r [THEN conjunct1] by (simp only: mixed_net_gathered)
  have b: "handleDiagnostic mixed_net fresh_node [] example_peer (newMessage ''wxyz'')
       = (Returns (Some \<lparr>DiagID = Some ''wxyz'',
             Data = Some (encode_diagInfo mixed_own @ encode_diagInfo second_snapshot)\<rparr>, None),
          fresh_node\<lparr>diagMap := (diagMap fresh_node)(''wxyz'' \<mapsto> 9)\<rparr>,
          [request_to down_peer ''wxyz'', request_to mute_peer ''wxyz'',
           request_to example_peer ''wxyz'', request_to garbled_peer ''wxyz''])"
    using r' [THEN conjunct1]
    by (simp only: i mixed_net_relayed mixed_net_after_peers append_Nil)
  have c: "decode_loop (encode_diagInfo mixed_own @ encode_diagInfo second_snapshot) []
       = [coerce_diagInfo mixed_own, second_snapshot]"
    using r' [THEN conjunct2, THEN conjunct1]
    by (simp only: mixed_net_relayed decode_loop_single
        coerce_diagInfo_valid [OF second_snapshot_valid])
  have e: "handleDiagnostic mixed_net example_node [] down_peer (newMessage ''abcd'')
       = (Returns (Some \<lparr>DiagID = Some ''abcd'', Data = None\<rparr>, None), example_node, [])"
    using s [THEN conjunct2, THEN conjunct2, THEN conjunct2, THEN mp, OF h']
    by (simp only: j)
  from n t p g g' h a b c ge h' e show ?thesis by (simp only: i simp_thms)
qed

text \<open>
  The node \<open>example_node\<close> has the id \<open>abcd\<close> in its ledger. The request with that
  id is answered, and the response has no payload: the sequence of snapshots decoded
  from it is empty, so it has no first element, and the world is as it was before: no
  peer was asked.
\<close>
theorem answered_without_snapshot_counterexample:
  "handleDiagnostic mixed_net example_node [] example_peer (newMessage ''abcd'')
     = (Returns (Some \<lparr>DiagID = Some ''abcd'', Data = None\<rparr>, None), example_node, [])
   \<and> decode_loop (bytes_of (GetData (Some \<lparr>DiagID = Some ''abcd'', Data = None\<rparr>))) [] = []"
proof -
  have "diagMap example_node (GetDiagID (newMessage ''abcd'')) = Some 5"
    by (simp add: example_node_def GetDiagID_def newMessage_def)
  from handleDiagnostic_found [OF this, of mixed_net "[]" example_peer]
  have "handleDiagnostic mixed_net example_node [] example_peer (newMessage ''abcd'')
     = (Returns (Some \<lparr>DiagID = Some ''abcd'', Data = None\<rparr>, None), example_node, [])"
    by (simp add: GetDiagID_def newMessage_def)
  moreover have
    "decode_loop (bytes_of (GetData (Some \<lparr>DiagID = Some ''abcd'', Data = None\<rparr>))) [] = []"
    by (simp add: GetData_def bytes_of_def decode_loop_Nil)
  ultimately show ?thesis by simp
qed

end
